theory Spec2Isabelle
  imports Complex_Main
begin

section \<open>Data model\<close>

text \<open>
  Exceptions of the Python program, as values, each with its message. \<open>ValueError\<close>
  is what the checks of \<open>plot_bar_chart\<close> and \<open>numpy.zeros\<close> raise; \<open>TypeError\<close> is
  what Python raises when it is asked to compare, add to or take the length of
  \<open>None\<close>; \<open>IndexError\<close> is what \<open>labels[i]\<close> raises out of range; \<open>Exception\<close> stands
  for whatever \<open>read_transform\<close> raises (the clause \<open>except Exception as e\<close> catches
  all of them alike and only prints \<open>e\<close>).
\<close>

datatype py_error = ValueError string | TypeError string | IndexError string | Exception string

text \<open>
  \<open>pycvcam.ZernikeDistortion\<close> is a class of an external library. The program reads
  three attributes of it: the order \<open>Nzer\<close> and the coefficient vectors
  \<open>parameters_x\<close> and \<open>parameters_y\<close> (numpy arrays of floats, here exact rationals).
  Each of the three can be Python's \<open>None\<close> (all are in a distortion built without
  parameters), here the value \<open>None\<close> of the option type. \<open>plot_bar_chart\<close> checks
  nothing about them and the three fields are independent.
\<close>

record ZernikeDistortion =
  Nzer :: "int option"
  parameters_x :: "rat list option"
  parameters_y :: "rat list option"

text \<open>
  One call of \<open>axes.bar(x, height, width=..., label=..., color=colormap(c))\<close>: the
  centres of the bars, their heights, the common width, the legend label and the
  argument \<open>c\<close> handed to the colour map.
\<close>

record BarContainer =
  bar_x :: "rat list"
  bar_height :: "rat list"
  bar_width :: rat
  bar_label :: string
  bar_color :: rat

record Axes =
  bars :: "BarContainer list"
  xticks :: "rat list"
  xticklabels :: "string list"
  title :: string
  legend_shown :: bool
  grid_shown :: bool

text \<open>
  \<open>MplCanvas\<close>: the axes the program draws on, and what \<open>draw()\<close> rendered last.
\<close>

record MplCanvas =
  axes :: Axes
  rendered :: Axes

text \<open>
  The values \<open>plot_bar_chart\<close> can be handed: it checks the dynamic type of each
  argument with \<open>isinstance\<close>.
\<close>

datatype pyval =
    PyNone
  | PyInt int
  | PyStr string
  | PyList "pyval list"
  | PyCanvas MplCanvas
  | PyDistortion ZernikeDistortion

section \<open>Formatting integers\<close>

text \<open>\<open>str(n)\<close> of a Python int, as an f-string replacement field writes it.\<close>

definition digit_char :: "nat \<Rightarrow> char" where
  "digit_char d = ''0123456789'' ! (d mod 10)"

fun str_nat :: "nat \<Rightarrow> string" where
  "str_nat n = (if n < 10 then [digit_char n] else str_nat (n div 10) @ [digit_char (n mod 10)])"

declare str_nat.simps [simp del]

definition str_int :: "int \<Rightarrow> string" where
  "str_int i = (if i < 0 then CHR ''-'' # str_nat (nat (- i)) else str_nat (nat i))"

text \<open>A word between single quotes, as Python's messages write type names.\<close>

definition quoted :: "string \<Rightarrow> string" where
  "quoted w = CHR 0x27 # w @ [CHR 0x27]"

section \<open>plot_bar_chart\<close>


definition isinstance_list :: "pyval \<Rightarrow> bool" where
  "isinstance_list v = (case v of PyList _ \<Rightarrow> True | _ \<Rightarrow> False)"

definition isinstance_ZernikeDistortion :: "pyval \<Rightarrow> bool" where
  "isinstance_ZernikeDistortion v = (case v of PyDistortion _ \<Rightarrow> True | _ \<Rightarrow> False)"

definition isinstance_str :: "pyval \<Rightarrow> bool" where
  "isinstance_str v = (case v of PyStr _ \<Rightarrow> True | _ \<Rightarrow> False)"

text \<open>The elements of a list value (used only once \<open>isinstance_list\<close> has passed).\<close>

definition elems :: "pyval \<Rightarrow> pyval list" where
  "elems v = (case v of PyList xs \<Rightarrow> xs | _ \<Rightarrow> [])"

definition distortion_of :: "pyval \<Rightarrow> ZernikeDistortion option" where
  "distortion_of v = (case v of PyDistortion d \<Rightarrow> Some d | _ \<Rightarrow> None)"

definition str_of :: "pyval \<Rightarrow> string option" where
  "str_of v = (case v of PyStr s \<Rightarrow> Some s | _ \<Rightarrow> None)"

text \<open>\<open>axes.clear()\<close>: no artist, no tick, no title, no legend, no grid.\<close>

definition cleared_axes :: Axes where
  "cleared_axes = \<lparr>bars = [], xticks = [], xticklabels = [], title = [],
     legend_shown = False, grid_shown = False\<rparr>"

definition axes_clear :: "MplCanvas \<Rightarrow> MplCanvas" where
  "axes_clear cv = cv\<lparr>axes := cleared_axes\<rparr>"

definition draw :: "MplCanvas \<Rightarrow> MplCanvas" where
  "draw cv = cv\<lparr>rendered := axes cv\<rparr>"

text \<open>
  Line 65: \<open>[f"C{mode}({n}, {m})" for n in range(Nzer + 1) for m in range(-n, n + 1)
  if (n + m) % 2 == 0]\<close>. \<open>zernike_indices\<close> is the iteration of the two \<open>for\<close>
  clauses and the filter, \<open>tick_label\<close> the f-string.
\<close>

definition zernike_indices :: "int \<Rightarrow> (int \<times> int) list" where
  "zernike_indices N = [(n, m). n \<leftarrow> [0..N], m \<leftarrow> [- n..n], (n + m) mod 2 = 0]"

definition tick_label :: "string \<Rightarrow> int \<times> int \<Rightarrow> string" where
  "tick_label mode nm =
     ''C'' @ mode @ ''('' @ str_int (fst nm) @ '', '' @ str_int (snd nm) @ '')''"

definition make_ticklabels :: "string \<Rightarrow> int \<Rightarrow> string list" where
  "make_ticklabels mode N = map (tick_label mode) (zernike_indices N)"

text \<open>\<open>numpy.arange(n)\<close>.\<close>

definition arange :: "nat \<Rightarrow> rat list" where
  "arange n = map of_nat [0..<n]"

text \<open>
  \<open>max(distortion.Nzer for distortion in distortions)\<close>, line 62. \<open>max\<close> keeps the
  first item and compares every later \<open>item\<close> with the largest so far (\<open>item > maxitem\<close>);
  a comparison that involves \<open>None\<close> raises \<open>TypeError\<close>. One item alone is returned
  without any comparison, also when it is \<open>None\<close>; \<open>max\<close> of nothing raises.
\<close>

definition type_name :: "int option \<Rightarrow> string" where
  "type_name v = (case v of None \<Rightarrow> ''NoneType'' | Some _ \<Rightarrow> ''int'')"

fun max_loop :: "int option \<Rightarrow> int option list \<Rightarrow> py_error + int option" where
  "max_loop maxitem [] = Inr maxitem"
| "max_loop maxitem (item # items) =
     (case (item, maxitem) of
        (Some a, Some b) \<Rightarrow> max_loop (if a > b then Some a else Some b) items
      | _ \<Rightarrow> Inl (TypeError (quoted ''>'' @ '' not supported between instances of ''
                 @ quoted (type_name item) @ '' and '' @ quoted (type_name maxitem))))"

definition max_Nzer :: "ZernikeDistortion list \<Rightarrow> py_error + int option" where
  "max_Nzer ds = (case map Nzer ds of
       [] \<Rightarrow> Inl (ValueError ''max() iterable argument is empty'')
     | first # rest \<Rightarrow> max_loop first rest)"

definition select_parameters :: "string \<Rightarrow> ZernikeDistortion \<Rightarrow> rat list option" where
  "select_parameters mode d = (if mode = ''x'' then parameters_x d else parameters_y d)"

text \<open>
  Lines 71 to 76, the loop over \<open>enumerate(distortions)\<close>, from index \<open>i\<close> on.
  In line 73 \<open>len(parameters)\<close> raises \<open>TypeError\<close> when the vector is \<open>None\<close>, and
  \<open>numpy.zeros(k)\<close> raises \<open>ValueError\<close> for a negative \<open>k\<close>, that is when a distortion
  has more coefficients than there are tick labels; \<open>labels[i]\<close> raises \<open>IndexError\<close>
  out of range. The bars drawn before an exception stay on the axes.
\<close>

fun bar_loop :: "string \<Rightarrow> bool \<Rightarrow> string list \<Rightarrow> string list \<Rightarrow> rat list \<Rightarrow> rat \<Rightarrow> rat
    \<Rightarrow> nat \<Rightarrow> nat \<Rightarrow> ZernikeDistortion list \<Rightarrow> Axes \<Rightarrow> Axes \<times> py_error option" where
  "bar_loop mode absolute labels ticklabels x x_width x_shift n_dist i [] ax = (ax, None)"
| "bar_loop mode absolute labels ticklabels x x_width x_shift n_dist i (d # ds) ax =
     (case select_parameters mode d of
        None \<Rightarrow> (ax, Some (TypeError (''object of type '' @ quoted ''NoneType'' @ '' has no len()'')))
      | Some parameters \<Rightarrow>
         if length ticklabels < length parameters
         then (ax, Some (ValueError ''negative dimensions are not allowed''))
         else
           let parameters = parameters @ replicate (length ticklabels - length parameters) 0;
               parameters = (if absolute then map abs parameters else parameters)
           in if length labels \<le> i
              then (ax, Some (IndexError ''list index out of range''))
              else bar_loop mode absolute labels ticklabels x x_width x_shift n_dist (Suc i) ds
                     (ax\<lparr>bars := bars ax @
                        [\<lparr>bar_x = map (\<lambda>t. t + x_shift + of_nat i * x_width) x,
                          bar_height = parameters,
                          bar_width = x_width,
                          bar_label = labels ! i,
                          bar_color = of_nat i / of_nat n_dist\<rparr>]\<rparr>))"

text \<open>
  Lines 58 to 84: what \<open>plot_bar_chart\<close> does once its arguments have passed the checks.
  The result is the canvas as the call leaves it, and the exception raised, if any.
  In line 65 \<open>range(Nzer + 1)\<close> raises \<open>TypeError\<close> when \<open>Nzer\<close> is \<open>None\<close>.
  The calls into matplotlib (\<open>clear\<close>, \<open>bar\<close>, \<open>set_xticks\<close>, \<open>set_xticklabels\<close>,
  \<open>set_title\<close>, \<open>legend\<close>, \<open>grid\<close>, \<open>draw\<close>) are taken to succeed and to do what
  their names say: the charting library is not part of the program.
\<close>

definition plot_body :: "MplCanvas \<Rightarrow> ZernikeDistortion list \<Rightarrow> string list \<Rightarrow> string \<Rightarrow> bool
    \<Rightarrow> MplCanvas \<times> py_error option" where
  "plot_body cv ds labels mode absolute =
     (let cv = axes_clear cv
      in case max_Nzer ds of
           Inl e \<Rightarrow> (cv, Some e)
         | Inr None \<Rightarrow>
             (cv, Some (TypeError (''unsupported operand type(s) for +: '' @ quoted ''NoneType''
                          @ '' and '' @ quoted ''int'')))
         | Inr (Some N) \<Rightarrow>
            (let ticklabels = make_ticklabels mode N;
                 x = arange (length ticklabels);
                 x_width = (8 / 10) / of_nat (length ds);
                 x_shift = - (4 / 10) + x_width / 2
             in case bar_loop mode absolute labels ticklabels x x_width x_shift (length ds) 0 ds (axes cv) of
                  (ax, Some e) \<Rightarrow> (cv\<lparr>axes := ax\<rparr>, Some e)
                | (ax, None) \<Rightarrow>
                    (draw (cv\<lparr>axes := ax\<lparr>xticks := x, xticklabels := ticklabels,
                        title := ''Zernike Coefficients ['' @ mode @ ''-axis]'',
                        legend_shown := True, grid_shown := True\<rparr>\<rparr>), None)))"

text \<open>
  \<open>plot_bar_chart(mpl_canvas, distortions, labels, mode, absolute)\<close>. The first
  component of the result is the object passed as \<open>mpl_canvas\<close> as the call leaves it
  (the function works on it in place), the second is the exception raised or the
  canvas returned.
\<close>

definition plot_bar_chart :: "pyval \<Rightarrow> pyval \<Rightarrow> pyval \<Rightarrow> pyval \<Rightarrow> bool
    \<Rightarrow> pyval \<times> (py_error + MplCanvas)" where
  "plot_bar_chart mpl_canvas distortions labels mode absolute =
     (case mpl_canvas of
        PyCanvas cv \<Rightarrow>
          if \<not> isinstance_list distortions \<or> length (elems distortions) = 0
          then (mpl_canvas, Inl (ValueError ''Invalid distortions list''))
          else if \<not> list_all isinstance_ZernikeDistortion (elems distortions)
          then (mpl_canvas, Inl (ValueError ''Invalid distortion object''))
          else if \<not> isinstance_list labels \<or> length (elems labels) = 0
          then (mpl_canvas, Inl (ValueError ''Invalid labels list''))
          else if \<not> list_all isinstance_str (elems labels)
          then (mpl_canvas, Inl (ValueError ''Invalid label object''))
          else if \<not> length (elems labels) = length (elems distortions)
          then (mpl_canvas, Inl (ValueError ''Labels and distortions must have the same length''))
          else if \<not> mode \<in> set [PyStr ''x'', PyStr ''y'']
          then (mpl_canvas, Inl (ValueError (''Invalid mode, must be '' @ quoted ''x''
                                   @ '' or '' @ quoted ''y'')))
          else (case plot_body cv (List.map_filter distortion_of (elems distortions))
                       (List.map_filter str_of (elems labels)) (if mode = PyStr ''x'' then ''x'' else ''y'') absolute of
                  (cv', Some e) \<Rightarrow> (PyCanvas cv', Inl e)
                | (cv', None) \<Rightarrow> (PyCanvas cv', Inr cv'))
      | _ \<Rightarrow> (mpl_canvas, Inl (ValueError ''Invalid MplCanvas object'')))"

section \<open>The window: files, list, selectors\<close>

text \<open>
  The methods of \<open>DropWidget\<close> and \<open>ZernikeDistortionVisualizerUI\<close> are functions on
  the record \<open>UI\<close> below. What belongs to Qt is a parameter or is left out:
  \<^item> \<open>read_transform\<close> is the parameter \<open>rt\<close>, the result of the file dialog the
    parameter \<open>dialog\<close>, the URLs of a drop the parameter \<open>urls\<close>;
  \<^item> \<open>update_plot\<close> is modelled where the code calls it. The signal connections of
    lines 216, 221 and 225 run it again on every change of the selection, the
    selector or the checkbox; it writes to the canvas only and rebuilds the axes from
    nothing each time;
  \<^item> the accept or ignore flag of a drop event is not part of the state;
  \<^item> \<open>if distortion:\<close> (line 321) is the test that \<open>file_data.get\<close> found an entry
    (an instance of the class is truthy).
\<close>

text \<open>
  \<open>truncate_filename(file_path)\<close> with its default \<open>max_len=30\<close>, the only way the
  program calls it: \<open>part_len = (30 - 3) // 2 = 13\<close>. \<open>basename\<close> is
  \<open>os.path.basename\<close> for \<open>/\<close>-separated paths.
\<close>

definition basename :: "string \<Rightarrow> string" where
  "basename file_path = rev (takeWhile (\<lambda>c. c \<noteq> CHR ''/'') (rev file_path))"

definition truncate_filename :: "string \<Rightarrow> string" where
  "truncate_filename file_path =
     (let name = basename file_path
      in if length name \<le> 30 then name
         else take 13 name @ ''...'' @ drop (length name - 13) name)"

text \<open>An item of the \<open>QListWidget\<close>: its text and whether it is selected.\<close>

record QListWidgetItem =
  item_text :: string
  item_selected :: bool

text \<open>A dropped \<open>QUrl\<close>; \<open>toLocalFile()\<close> is empty for a URL that is no local file.\<close>

datatype QUrl = LocalFile string | RemoteUrl string

fun toLocalFile :: "QUrl \<Rightarrow> string" where
  "toLocalFile (LocalFile p) = p"
| "toLocalFile (RemoteUrl u) = []"

text \<open>
  The state of the window and of its drop area, which share \<open>file_data\<close>, the file
  list and the status bar. \<open>warnings\<close> lists the \<open>QMessageBox.warning\<close> dialogs shown
  so far (title, text) and \<open>read_calls\<close> the paths handed to \<open>read_transform\<close> so far.
\<close>

record UI =
  file_data :: "string \<rightharpoonup> ZernikeDistortion"
  file_list :: "QListWidgetItem list"
  figure_selector :: string
  abs_checkbox :: bool
  statusbar :: string
  drop_label :: string
  drop_style :: string
  canvas :: MplCanvas
  warnings :: "(string \<times> string) list"
  read_calls :: "string list"

definition error_message :: "py_error \<Rightarrow> string" where
  "error_message e =
     (case e of ValueError m \<Rightarrow> m | TypeError m \<Rightarrow> m | IndexError m \<Rightarrow> m | Exception m \<Rightarrow> m)"

text \<open>\<open>file_list.addItem(text)\<close>: a new, unselected item at the end.\<close>

definition addItem :: "string \<Rightarrow> QListWidgetItem list \<Rightarrow> QListWidgetItem list" where
  "addItem p its = its @ [\<lparr>item_text = p, item_selected = False\<rparr>]"

text \<open>\<open>for item in findItems(p, Qt.MatchExactly): item.setSelected(True)\<close>.\<close>

definition select_all_matching :: "string \<Rightarrow> QListWidgetItem list \<Rightarrow> QListWidgetItem list" where
  "select_all_matching p its =
     map (\<lambda>it. if item_text it = p then it\<lparr>item_selected := True\<rparr> else it) its"

text \<open>\<open>items = findItems(p, Qt.MatchExactly); if items: items[0].setSelected(True)\<close>.\<close>

fun select_first_matching :: "string \<Rightarrow> QListWidgetItem list \<Rightarrow> QListWidgetItem list" where
  "select_first_matching p [] = []"
| "select_first_matching p (it # its) =
     (if item_text it = p then it\<lparr>item_selected := True\<rparr> # its
      else it # select_first_matching p its)"

text \<open>
  \<open>items = findItems(p, Qt.MatchExactly); if items: setCurrentItem(items[0])\<close>. Which
  items are selected once an item was made current is decided by Qt's selection
  model; the model takes that decision as the parameter \<open>sel\<close>: \<open>sel its r j\<close> is
  the flag of row \<open>j\<close> after row \<open>r\<close> of \<open>its\<close> was made current. No item is added,
  removed or renamed.
\<close>

fun first_row :: "string \<Rightarrow> QListWidgetItem list \<Rightarrow> nat option" where
  "first_row p [] = None"
| "first_row p (it # its) =
     (if item_text it = p then Some 0 else map_option Suc (first_row p its))"

definition setCurrentItem_first :: "(QListWidgetItem list \<Rightarrow> nat \<Rightarrow> nat \<Rightarrow> bool) \<Rightarrow> string
    \<Rightarrow> QListWidgetItem list \<Rightarrow> QListWidgetItem list" where
  "setCurrentItem_first sel p its =
     (case first_row p its of
        None \<Rightarrow> its
      | Some r \<Rightarrow> map (\<lambda>j. (its ! j)\<lparr>item_selected := sel its r j\<rparr>) [0..<length its])"

subsection \<open>DropWidget.dropEvent\<close>

definition reset_style :: "UI \<Rightarrow> UI" where
  "reset_style s = s\<lparr>drop_style := ''background-color: none; border: 2px dashed #cccccc;'',
                     drop_label := ''Drag your files here''\<rparr>"

text \<open>
  Lines 167 to 181: the loading loop, with \<open>loaded_count\<close>. \<open>rt\<close> is
  \<open>read_transform(_, ZernikeDistortion)\<close>: the distortion read, or the exception.
\<close>

fun drop_load :: "(string \<Rightarrow> py_error + ZernikeDistortion) \<Rightarrow> QUrl list \<Rightarrow> UI \<times> nat \<Rightarrow> UI \<times> nat" where
  "drop_load rt [] (s, loaded_count) = (s, loaded_count)"
| "drop_load rt (qurl # urls) (s, loaded_count) =
     (let file_path = toLocalFile qurl
      in if file_path = [] \<or> file_path \<in> dom (file_data s)
         then drop_load rt urls (s, loaded_count)
         else (case rt file_path of
                 Inr distortion \<Rightarrow>
                   drop_load rt urls
                     (s\<lparr>read_calls := read_calls s @ [file_path],
                        file_data := (file_data s)(file_path \<mapsto> distortion),
                        file_list := addItem file_path (file_list s)\<rparr>,
                      loaded_count + 1)
               | Inl e \<Rightarrow>
                   drop_load rt urls
                     (s\<lparr>read_calls := read_calls s @ [file_path],
                        warnings := warnings s @
                          [(''File Read Error'',
                            ''Unable to read '' @ file_path @ '':'' @ [CHR 0x0A] @ error_message e)]\<rparr>,
                      loaded_count)))"

text \<open>Lines 184 to 190: select the items of every dropped path.\<close>

fun drop_select :: "QUrl list \<Rightarrow> UI \<Rightarrow> UI" where
  "drop_select [] s = s"
| "drop_select (qurl # urls) s =
     (let file_path = toLocalFile qurl
      in if file_path = [] then drop_select urls s
         else drop_select urls (s\<lparr>file_list := select_all_matching file_path (file_list s)\<rparr>))"

text \<open>
  \<open>dropEvent\<close>, on the list \<open>urls\<close> that \<open>_extract_urls(event.mimeData())\<close> gives.
\<close>

definition dropEvent :: "(string \<Rightarrow> py_error + ZernikeDistortion) \<Rightarrow> QUrl list \<Rightarrow> UI \<Rightarrow> UI" where
  "dropEvent rt urls s =
     (if urls = [] then reset_style s
      else
        let (s, loaded_count) = drop_load rt urls (reset_style s, 0);
            s = drop_select urls s
        in s\<lparr>statusbar := str_int (int loaded_count) @ '' file(s) loaded''\<rparr>)"

subsection \<open>update_plot\<close>

text \<open>
  \<open>file_list.selectedItems()\<close>, here in the order of the rows. Qt returns the selected
  items in the order of its selection ranges, which is a permutation of this list:
  the order decides only in which order \<open>update_plot\<close> hands the distortions and
  labels to \<open>plot_bar_chart\<close>.
\<close>

definition selectedItems :: "QListWidgetItem list \<Rightarrow> QListWidgetItem list" where
  "selectedItems its = filter item_selected its"

definition startswith :: "string \<Rightarrow> string \<Rightarrow> bool" where
  "startswith s p = (take (length p) s = p)"

text \<open>
  Lines 318 to 323: the distortions and labels of the selected items. An item whose
  path has no entry in \<open>file_data\<close> is passed over (\<open>file_data.get\<close> gives \<open>None\<close>).
\<close>

fun collect_selected :: "(string \<rightharpoonup> ZernikeDistortion) \<Rightarrow> QListWidgetItem list
    \<Rightarrow> ZernikeDistortion list \<times> string list \<Rightarrow> ZernikeDistortion list \<times> string list" where
  "collect_selected fd [] (distortions, labels) = (distortions, labels)"
| "collect_selected fd (item # its) (distortions, labels) =
     (let file_path = item_text item
      in case fd file_path of
           Some distortion \<Rightarrow>
             collect_selected fd its
               (distortions @ [distortion], labels @ [truncate_filename file_path])
         | None \<Rightarrow> collect_selected fd its (distortions, labels))"

text \<open>
  What \<open>update_plot\<close> decides to do after it cleared the axes: draw the empty axes
  and return (lines 308 to 310 and 325 to 327), call \<open>plot_bar_chart\<close> with the
  arguments given (lines 329 to 332), or neither (no branch of the last \<open>if\<close>).
\<close>

record plot_call =
  call_distortions :: "ZernikeDistortion list"
  call_labels :: "string list"
  call_mode :: string
  call_absolute :: bool

datatype plot_decision = DrawEmpty | CallPlot plot_call | NoCall

definition update_plot_decision :: "UI \<Rightarrow> plot_decision" where
  "update_plot_decision s =
     (let selected_items = selectedItems (file_list s)
      in if selected_items = [] then DrawEmpty
         else
           let fig_choice = figure_selector s;
               use_abs = abs_checkbox s;
               (distortions, labels) = collect_selected (file_data s) selected_items ([], [])
           in if distortions = [] then DrawEmpty
              else if startswith fig_choice ''Figure 1''
              then CallPlot \<lparr>call_distortions = distortions, call_labels = labels,
                     call_mode = ''x'', call_absolute = use_abs\<rparr>
              else if startswith fig_choice ''Figure 2''
              then CallPlot \<lparr>call_distortions = distortions, call_labels = labels,
                     call_mode = ''y'', call_absolute = use_abs\<rparr>
              else NoCall)"

text \<open>
  \<open>update_plot\<close>: the state it leaves and the exception that escapes it, if any.
  \<open>plot_bar_chart\<close> works on the canvas object in place, so the canvas keeps what was
  done to it also when the call raises.
\<close>

definition canvas_of :: "pyval \<Rightarrow> MplCanvas \<Rightarrow> MplCanvas" where
  "canvas_of v dflt = (case v of PyCanvas cv \<Rightarrow> cv | _ \<Rightarrow> dflt)"

definition update_plot :: "UI \<Rightarrow> UI \<times> py_error option" where
  "update_plot s =
     (let s = s\<lparr>canvas := axes_clear (canvas s)\<rparr>
      in case update_plot_decision s of
           DrawEmpty \<Rightarrow> (s\<lparr>canvas := draw (canvas s)\<rparr>, None)
         | NoCall \<Rightarrow> (s, None)
         | CallPlot c \<Rightarrow>
             (case plot_bar_chart (PyCanvas (canvas s))
                     (PyList (map PyDistortion (call_distortions c)))
                     (PyList (map PyStr (call_labels c)))
                     (PyStr (call_mode c)) (call_absolute c) of
                (obj, Inl e) \<Rightarrow> (s\<lparr>canvas := canvas_of obj (canvas s)\<rparr>, Some e)
              | (obj, Inr cv) \<Rightarrow> (s\<lparr>canvas := cv\<rparr>, None)))"

subsection \<open>remove_selected_files\<close>

text \<open>
  Lines 267 to 271, over the items that were selected when the method started:
  \<open>takeItem(row(item))\<close> takes that item out of the list.
\<close>

fun remove_items :: "QListWidgetItem list \<Rightarrow> UI \<Rightarrow> UI" where
  "remove_items [] s = s"
| "remove_items (item # selected_items) s =
     (let file_path = item_text item;
          s = (if file_path \<in> dom (file_data s)
               then s\<lparr>file_data := (file_data s)(file_path := None)\<rparr> else s)
      in remove_items selected_items (s\<lparr>file_list := remove1 item (file_list s)\<rparr>))"

definition remove_selected_files :: "UI \<Rightarrow> UI \<times> py_error option" where
  "remove_selected_files s =
     (let selected_items = selectedItems (file_list s)
      in update_plot (remove_items selected_items s))"

subsection \<open>open_files\<close>

text \<open>Lines 282 to 294: the loading loop over the paths the dialog returned.\<close>

fun open_load :: "(string \<Rightarrow> py_error + ZernikeDistortion) \<Rightarrow> (QListWidgetItem list \<Rightarrow> nat \<Rightarrow> nat \<Rightarrow> bool)
    \<Rightarrow> string list \<Rightarrow> UI \<Rightarrow> UI" where
  "open_load rt sel [] s = s"
| "open_load rt sel (p # paths) s =
     (if p \<in> dom (file_data s)
      then open_load rt sel paths (s\<lparr>file_list := setCurrentItem_first sel p (file_list s)\<rparr>)
      else (case rt p of
              Inr distortion \<Rightarrow>
                open_load rt sel paths
                  (s\<lparr>read_calls := read_calls s @ [p],
                     file_data := (file_data s)(p \<mapsto> distortion),
                     file_list := addItem p (file_list s)\<rparr>)
            | Inl e \<Rightarrow>
                open_load rt sel paths
                  (s\<lparr>read_calls := read_calls s @ [p],
                     warnings := warnings s @
                       [(''File Read Error'',
                         ''Unable to read '' @ p @ '':'' @ [CHR 0x0A] @ error_message e)]\<rparr>)))"

text \<open>Lines 296 to 299.\<close>

fun open_select :: "string list \<Rightarrow> UI \<Rightarrow> UI" where
  "open_select [] s = s"
| "open_select (p # paths) s =
     open_select paths (s\<lparr>file_list := select_first_matching p (file_list s)\<rparr>)"

text \<open>
  \<open>open_files\<close>; \<open>dialog\<close> is what the file dialog gave: \<open>None\<close> when \<open>exec_()\<close> was
  rejected, the selected files otherwise.
\<close>

definition open_files :: "(string \<Rightarrow> py_error + ZernikeDistortion) \<Rightarrow> (QListWidgetItem list \<Rightarrow> nat \<Rightarrow> nat \<Rightarrow> bool)
    \<Rightarrow> string list option \<Rightarrow> UI \<Rightarrow> UI \<times> py_error option" where
  "open_files rt sel dialog s =
     (case dialog of
        None \<Rightarrow> (s, None)
      | Some paths \<Rightarrow> update_plot (open_select paths (open_load rt sel paths s)))"

text \<open>The window as \<open>__init__\<close> builds it.\<close>

definition init_UI :: UI where
  "init_UI = \<lparr>file_data = Map.empty, file_list = [],
     figure_selector = ''Figure 1 : parameters (X)'', abs_checkbox = False,
     statusbar = [], drop_label = ''Drag your files here'',
     drop_style = ''background-color: none; border: 2px dashed #cccccc;'',
     canvas = \<lparr>axes = cleared_axes, rendered = cleared_axes\<rparr>,
     warnings = [], read_calls = []\<rparr>"


section \<open>Notions the properties are stated with\<close>

text \<open>
  The number of index pairs \<open>(n, m)\<close> up to order \<open>N\<close>, that is of Zernike
  coefficients per axis.
\<close>

definition n_coeffs :: "int \<Rightarrow> nat" where
  "n_coeffs N = nat ((N + 1) * (N + 2) div 2)"

text \<open>
  The largest order of a list of distortions whose orders are all set, and the
  number of tick labels that \<open>plot_bar_chart\<close> makes for it.
\<close>

definition orders_set :: "ZernikeDistortion list \<Rightarrow> bool" where
  "orders_set ds = list_all (\<lambda>d. Nzer d \<noteq> None) ds"

definition max_order :: "ZernikeDistortion list \<Rightarrow> int" where
  "max_order ds = Max ((\<lambda>d. the (Nzer d)) ` set ds)"

definition n_ticks :: "ZernikeDistortion list \<Rightarrow> nat" where
  "n_ticks ds = length (zernike_indices (max_order ds))"

text \<open>
  The vector of \<open>d\<close> on the chosen axis is set and has at most \<open>n\<close> entries: the
  iteration of the loop for \<open>d\<close> draws its bars. Otherwise it raises \<open>loop_error\<close>.
\<close>

definition vector_fits :: "string \<Rightarrow> nat \<Rightarrow> ZernikeDistortion \<Rightarrow> bool" where
  "vector_fits mode n d =
     (case select_parameters mode d of None \<Rightarrow> False | Some ps \<Rightarrow> length ps \<le> n)"

definition loop_error :: "string \<Rightarrow> ZernikeDistortion \<Rightarrow> py_error" where
  "loop_error mode d =
     (case select_parameters mode d of
        None \<Rightarrow> TypeError (''object of type '' @ quoted ''NoneType'' @ '' has no len()'')
      | Some ps \<Rightarrow> ValueError ''negative dimensions are not allowed'')"

text \<open>
  Every order is set, and every vector on the chosen axis is set and no longer than
  the list of tick labels: the condition under which a call that passes the checks
  is proved to return.
\<close>

definition drawable :: "string \<Rightarrow> ZernikeDistortion list \<Rightarrow> bool" where
  "drawable mode ds = (orders_set ds \<and> list_all (vector_fits mode (n_ticks ds)) ds)"


text \<open>The order of the tick labels: by \<open>n\<close>, then by \<open>m\<close>.\<close>

definition lex_less :: "int \<times> int \<Rightarrow> int \<times> int \<Rightarrow> bool" where
  "lex_less p q = (fst p < fst q \<or> (fst p = fst q \<and> snd p < snd q))"

text \<open>
  The closed form of what a call draws, which the loop is proved to compute: the
  zero-padded vector, the bars of the distortion at index \<open>i\<close>, the containers on
  the axes when the loop ends or stops, and the axes at the end of a call that
  returns.
\<close>

definition pad_to :: "nat \<Rightarrow> rat list \<Rightarrow> rat list" where
  "pad_to n ps = ps @ replicate (n - length ps) 0"

definition bar_of :: "string \<Rightarrow> bool \<Rightarrow> string list \<Rightarrow> nat \<Rightarrow> nat \<Rightarrow> nat \<times> ZernikeDistortion
    \<Rightarrow> BarContainer" where
  "bar_of mode absolute labels n k jd =
     \<lparr>bar_x = map (\<lambda>t. t + (- (4 / 10) + (8 / 10) / of_nat k / 2)
                          + of_nat (fst jd) * ((8 / 10) / of_nat k)) (arange n),
      bar_height = (if absolute then map abs (pad_to n (the (select_parameters mode (snd jd))))
                    else pad_to n (the (select_parameters mode (snd jd)))),
      bar_width = (8 / 10) / of_nat k,
      bar_label = labels ! fst jd,
      bar_color = of_nat (fst jd) / of_nat k\<rparr>"

definition drawn_bars :: "ZernikeDistortion list \<Rightarrow> string list \<Rightarrow> string \<Rightarrow> bool \<Rightarrow> BarContainer list" where
  "drawn_bars ds labels mode absolute =
     map (bar_of mode absolute labels (n_ticks ds) (length ds))
       (enumerate 0 (takeWhile (vector_fits mode (n_ticks ds)) ds))"

definition chart_axes :: "ZernikeDistortion list \<Rightarrow> string list \<Rightarrow> string \<Rightarrow> bool \<Rightarrow> Axes" where
  "chart_axes ds labels mode absolute =
     \<lparr>bars = drawn_bars ds labels mode absolute,
      xticks = arange (n_ticks ds),
      xticklabels = make_ticklabels mode (max_order ds),
      title = ''Zernike Coefficients ['' @ mode @ ''-axis]'',
      legend_shown = True, grid_shown = True\<rparr>"

text \<open>
  Concrete inputs for the examples: two distortions, of orders 1 and 0, with one
  coefficient per index pair; a distortion of order 0 with two coefficients per
  axis; and a distortion without parameters.
\<close>

definition example_d1 :: ZernikeDistortion where
  "example_d1 = \<lparr>Nzer = Some 1, parameters_x = Some [1, - 2, 3], parameters_y = Some [0, 5, - 1]\<rparr>"

definition example_d2 :: ZernikeDistortion where
  "example_d2 = \<lparr>Nzer = Some 0, parameters_x = Some [- 4], parameters_y = Some [7]\<rparr>"

definition overlong_d :: ZernikeDistortion where
  "overlong_d = \<lparr>Nzer = Some 0, parameters_x = Some [1, 2], parameters_y = Some [3, 4]\<rparr>"

definition unset_d :: ZernikeDistortion where
  "unset_d = \<lparr>Nzer = None, parameters_x = None, parameters_y = None\<rparr>"

definition example_canvas :: MplCanvas where
  "example_canvas = \<lparr>axes = cleared_axes, rendered = cleared_axes\<rparr>"

text \<open>
  A canvas that shows a chart: the one of \<open>example_d1\<close> on the y-axis, as a call
  of \<open>plot_bar_chart\<close> that returned leaves it.
\<close>

definition charted_canvas :: MplCanvas where
  "charted_canvas = draw (example_canvas\<lparr>axes := chart_axes [example_d1] [''a.json''] ''y'' False\<rparr>)"

text \<open>
  The extent of bar \<open>j\<close> of a container on the x-axis: \<open>axes.bar\<close> centres each bar
  on its position (its default \<open>align='center'\<close>).
\<close>

definition bar_left :: "BarContainer \<Rightarrow> nat \<Rightarrow> rat" where
  "bar_left b j = bar_x b ! j - bar_width b / 2"

definition bar_right :: "BarContainer \<Rightarrow> nat \<Rightarrow> rat" where
  "bar_right b j = bar_x b ! j + bar_width b / 2"

text \<open>
  A window with one file loaded and selected, the second figure chosen and the
  checkbox ticked.
\<close>

definition example_UI :: UI where
  "example_UI = init_UI\<lparr>file_data := [''/data/a.json'' \<mapsto> example_d1],
     file_list := [\<lparr>item_text = ''/data/a.json'', item_selected = True\<rparr>],
     figure_selector := ''Figure 2 : parameters (Y)'', abs_checkbox := True\<rparr>"

text \<open>The texts of the items of the file list, in order.\<close>

definition texts :: "QListWidgetItem list \<Rightarrow> string list" where
  "texts its = map item_text its"

text \<open>The warning dialog of lines 178 to 181 and 294, for path \<open>p\<close> and exception \<open>e\<close>.\<close>

definition read_warning :: "string \<Rightarrow> py_error \<Rightarrow> string \<times> string" where
  "read_warning p e =
     (''File Read Error'', ''Unable to read '' @ p @ '':'' @ [CHR 0x0A] @ error_message e)"

text \<open>
  What a loading loop is proved to leave in \<open>file_data\<close>: an entry stays as it is, and
  a path of the batch without one (and not passed over, \<open>ok\<close>) gets what
  \<open>read_transform\<close> returns for it, if it returns.
\<close>

definition load_result :: "(string \<Rightarrow> py_error + ZernikeDistortion) \<Rightarrow> (string \<Rightarrow> bool) \<Rightarrow> string list
    \<Rightarrow> (string \<rightharpoonup> ZernikeDistortion) \<Rightarrow> (string \<rightharpoonup> ZernikeDistortion)" where
  "load_result rt ok paths fd =
     (\<lambda>q. case fd q of
            Some d \<Rightarrow> Some d
          | None \<Rightarrow> if ok q \<and> q \<in> set paths
                    then (case rt q of Inr d \<Rightarrow> Some d | Inl e \<Rightarrow> None) else None)"

text \<open>
  The keys of \<open>file_data\<close> are the texts of the list items, and no text occurs twice.
\<close>

definition files_invariant :: "UI \<Rightarrow> bool" where
  "files_invariant s =
     (dom (file_data s) = set (texts (file_list s)) \<and> distinct (texts (file_list s)))"

text \<open>
  A \<open>read_transform\<close> that reads two files and raises on every other path, and a
  selection model that selects the current row only.
\<close>

definition example_rt :: "string \<Rightarrow> py_error + ZernikeDistortion" where
  "example_rt p =
     (if p = ''/data/a.json'' then Inr example_d1
      else if p = ''/data/b.json'' then Inr example_d2
      else Inl (Exception ''not a transform file''))"

definition example_sel :: "QListWidgetItem list \<Rightarrow> nat \<Rightarrow> nat \<Rightarrow> bool" where
  "example_sel its r j = (j = r)"

section \<open>The index pairs of the tick labels\<close>

lemma zi_set: "set (zernike_indices N) = {(n, m). 0 \<le> n \<and> n \<le> N \<and> - n \<le> m \<and> m \<le> n \<and> (n + m) mod 2 = 0}"
  by (auto simp: zernike_indices_def)

lemma concat_map_if: "concat (map (\<lambda>m. if P m then [f m] else []) xs) = map f (filter P xs)"
  by (induction xs) simp_all

lemma zi_step: "0 \<le> N \<Longrightarrow> zernike_indices N = zernike_indices (N - 1) @ map (Pair N) (filter (\<lambda>m. (N + m) mod 2 = 0) [- N..N])"
  by (simp add: zernike_indices_def upto_rec2 [of 0 N] concat_map_if)

lemma zi_neg: "N < 0 \<Longrightarrow> zernike_indices N = []"
  by (simp add: zernike_indices_def)

lemma half_step: "(- 1::int) \<le> j \<Longrightarrow> nat ((j + 1) div 2 + 1) = nat (j div 2 + 1) + (if (j + 1) mod 2 = 0 then 1 else 0)"
proof (cases "even j")
  case True
  then obtain k where "j = 2 * k" by (elim evenE)
  then show ?thesis by simp
next
  case False
  then obtain k where k: "j = 2 * k + 1" by (elim oddE)
  assume "- 1 \<le> j"
  with k have "- 1 \<le> k" by simp
  with k show ?thesis by (simp add: nat_add_distrib)
qed

lemma count_parity_upto:
  "a - 1 \<le> b \<Longrightarrow> length (filter (\<lambda>m. (m - a) mod 2 = 0) [a..b]) = nat ((b - a) div 2 + 1)"
proof (induction b rule: int_ge_induct)
  case base
  show ?case by simp
next
  case (step i)
  have "[a..i + 1] = [a..i] @ [i + 1]"
    using step.hyps by (simp add: upto_rec2)
  then have "length (filter (\<lambda>m. (m - a) mod 2 = 0) [a..i + 1])
      = nat ((i - a) div 2 + 1) + (if (i - a + 1) mod 2 = 0 then 1 else 0)"
    using step.IH by (simp add: algebra_simps)
  also have "\<dots> = nat ((i - a + 1) div 2 + 1)"
    using half_step [of "i - a"] step.hyps by simp
  finally show ?case by (simp add: algebra_simps)
qed

lemma length_row: 
  assumes "0 \<le> n" shows "length (filter (\<lambda>m. (n + m) mod 2 = 0) [- n..n]) = nat (n + 1)"
proof -
  have "(\<lambda>m. (n + m) mod 2 = 0) = (\<lambda>m. (m - (- n)) mod 2 = 0)"
    by (simp add: add.commute)
  then show ?thesis
    using count_parity_upto [of "- n" n] assms by simp
qed

lemma n_coeffs_step: 
  assumes h: "0 \<le> N" shows "n_coeffs N = n_coeffs (N - 1) + nat (N + 1)"
proof -
  have e: "(N + 1) * (N + 2) = N * (N + 1) + 2 * (N + 1)"
    by (simp add: algebra_simps)
  have d: "(N + 1) * (N + 2) div 2 = N * (N + 1) div 2 + (N + 1)"
    unfolding e by simp
  have p: "0 \<le> N * (N + 1) div 2" using h by simp
  have "n_coeffs (N - 1) = nat (N * (N + 1) div 2)"
    by (simp add: n_coeffs_def add.commute)
  then show ?thesis using h p
    unfolding n_coeffs_def d by (simp add: nat_add_distrib)
qed

lemma length_zernike_indices: "- 1 \<le> N \<Longrightarrow> length (zernike_indices N) = n_coeffs N"
proof (induction N rule: int_ge_induct)
  case base
  show ?case by (simp add: zi_neg n_coeffs_def)
next
  case (step i)
  then show ?case
    using zi_step [of "i + 1"] length_row [of "i + 1"] n_coeffs_step [of "i + 1"]
    by simp
qed

lemma sorted_row: "sorted_wrt lex_less (map (Pair n) (filter P [a..b]))"
proof -
  have "sorted_wrt (<) (filter P [a..b])"
    by (rule sorted_wrt_filter) (rule sorted_wrt_upto)
  then show ?thesis
    by (simp add: sorted_wrt_map lex_less_def)
qed

lemma sorted_zernike_indices: "sorted_wrt lex_less (zernike_indices N)"
proof (cases "N < 0")
  case True
  then show ?thesis by (simp add: zi_neg)
next
  case False
  then have "- 1 \<le> N" by simp
  then show ?thesis
  proof (induction N rule: int_ge_induct)
    case base
    show ?case by (simp add: zi_neg)
  next
    case (step i)
    have cross: "\<forall>p \<in> set (zernike_indices i). \<forall>q \<in> set (map (Pair (i + 1)) (filter (\<lambda>m. (i + 1 + m) mod 2 = 0) [- (i + 1)..i + 1])). lex_less p q"
      by (auto simp: zi_set lex_less_def)
    have "zernike_indices (i + 1) = zernike_indices i @ map (Pair (i + 1)) (filter (\<lambda>m. (i + 1 + m) mod 2 = 0) [- (i + 1)..i + 1])"
      using zi_step [of "i + 1"] step.hyps by simp
    then show ?case
      using step.IH cross sorted_row [of "i + 1"]
      by (simp add: sorted_wrt_append)
  qed
qed


lemma length_make_ticklabels: "length (make_ticklabels mode N) = length (zernike_indices N)"
  by (simp add: make_ticklabels_def)

lemma length_zernike_indices_closed:
  "int (length (zernike_indices N)) = (if N < 0 then 0 else (N + 1) * (N + 2) div 2)"
proof (cases "N < 0")
  case True
  then show ?thesis by (simp add: zi_neg)
next
  case False
  then have "0 \<le> (N + 1) * (N + 2) div 2" by simp
  then show ?thesis
    using False by (simp add: length_zernike_indices n_coeffs_def)
qed

section \<open>The maximum of the orders and the loop over the distortions\<close>

lemma max_loop_set:
  "max_loop (Some b) (map Some xs) = Inr (Some (fold max xs b))"
proof (induction xs arbitrary: b)
  case Nil
  show ?case by simp
next
  case (Cons a xs)
  have "(if b < a then a else b) = max a b" by (simp add: max_def)
  then show ?case by (simp add: Cons.IH)
qed

lemma max_loop_unset:
  "(maxitem = None \<and> items \<noteq> []) \<or> None \<in> set items
    \<Longrightarrow> \<exists>msg. max_loop maxitem items = Inl (TypeError msg)"
proof (induction items arbitrary: maxitem)
  case Nil
  then show ?case by simp
next
  case (Cons item items)
  show ?case
  proof (cases "item = None \<or> maxitem = None")
    case True
    then show ?thesis by (auto split: option.splits)
  next
    case False
    then obtain a b where ab: "item = Some a" "maxitem = Some b" by auto
    then have "None \<in> set items" using Cons.prems by auto
    then have "\<exists>msg. max_loop (if a > b then Some a else Some b) items = Inl (TypeError msg)"
      by (intro Cons.IH) simp
    then show ?thesis by (simp add: ab)
  qed
qed

lemma max_Nzer_set:
  assumes "ds \<noteq> []" "orders_set ds"
  shows "max_Nzer ds = Inr (Some (max_order ds))"
proof -
  obtain d rest where ds: "ds = d # rest" using assms(1) by (cases ds) auto
  have all: "\<forall>d \<in> set ds. Nzer d = Some (the (Nzer d))"
    using assms(2) by (auto simp: orders_set_def list_all_iff)
  then have m: "map Nzer rest = map Some (map (\<lambda>d. the (Nzer d)) rest)"
    by (simp add: ds comp_def)
  have f: "Nzer d = Some (the (Nzer d))" using all by (simp add: ds)
  have "max_Nzer ds = max_loop (Nzer d) (map Nzer rest)"
    by (simp add: max_Nzer_def ds)
  also have "\<dots> = max_loop (Some (the (Nzer d))) (map Some (map (\<lambda>d. the (Nzer d)) rest))"
    by (simp only: m f [symmetric])
  also have "\<dots> = Inr (Some (fold max (map (\<lambda>d. the (Nzer d)) rest) (the (Nzer d))))"
    by (rule max_loop_set)
  also have "fold max (map (\<lambda>d. the (Nzer d)) rest) (the (Nzer d))
      = Max (set (the (Nzer d) # map (\<lambda>d. the (Nzer d)) rest))"
    by (simp only: Max.set_eq_fold)
  also have "\<dots> = max_order ds"
    by (simp add: max_order_def ds)
  finally show ?thesis .
qed

lemma max_Nzer_unset:
  assumes "ds \<noteq> []" "\<not> orders_set ds"
  shows "(\<exists>msg. max_Nzer ds = Inl (TypeError msg)) \<or> max_Nzer ds = Inr None"
proof -
  obtain d rest where ds: "ds = d # rest" using assms(1) by (cases ds) auto
  have n: "None \<in> set (map Nzer ds)"
    using assms(2) by (force simp: orders_set_def list_all_iff image_iff)
  show ?thesis
  proof (cases "rest = []")
    case True
    then show ?thesis using n by (simp add: max_Nzer_def ds)
  next
    case False
    have "(Nzer d = None \<and> map Nzer rest \<noteq> []) \<or> None \<in> set (map Nzer rest)"
      using n False by (auto simp: ds)
    from max_loop_unset [OF this] show ?thesis
      by (simp add: max_Nzer_def ds)
  qed
qed

lemma bar_loop_eq:
  assumes "i + length ds \<le> length labels"
  shows "bar_loop mode absolute labels tls (arange (length tls)) ((8 / 10) / of_nat k)
           (- (4 / 10) + (8 / 10) / of_nat k / 2) k i ds ax
         = (ax\<lparr>bars := bars ax @ map (bar_of mode absolute labels (length tls) k)
                           (enumerate i (takeWhile (vector_fits mode (length tls)) ds))\<rparr>,
            case dropWhile (vector_fits mode (length tls)) ds of
              [] \<Rightarrow> None | d # rest \<Rightarrow> Some (loop_error mode d))"
  using assms
proof (induction ds arbitrary: i ax)
  case Nil
  show ?case by simp
next
  case (Cons d ds)
  show ?case
  proof (cases "vector_fits mode (length tls) d")
    case False
    then show ?thesis
      by (auto simp: vector_fits_def loop_error_def split: option.splits)
  next
    case True
    then obtain ps where ps: "select_parameters mode d = Some ps" "length ps \<le> length tls"
      by (auto simp: vector_fits_def split: option.splits)
    have lab: "\<not> length labels \<le> i" using Cons.prems by simp
    have rest: "Suc i + length ds \<le> length labels" using Cons.prems by simp
    show ?thesis
      using True ps lab Cons.IH [OF rest]
      by (simp add: Let_def bar_of_def pad_to_def)
  qed
qed

section \<open>A call of plot_bar_chart that passes the checks\<close>

lemma plot_body_unset:
  assumes "ds \<noteq> []" "\<not> orders_set ds"
  shows "\<exists>msg. plot_body cv ds labels mode absolute = (axes_clear cv, Some (TypeError msg))"
  using max_Nzer_unset [OF assms]
  by (auto simp: plot_body_def Let_def)

lemma plot_body_loop:
  assumes "ds \<noteq> []" "orders_set ds" "length ds \<le> length labels"
  shows "plot_body cv ds labels mode absolute =
     (case dropWhile (vector_fits mode (n_ticks ds)) ds of
        [] \<Rightarrow> (draw (cv\<lparr>axes := chart_axes ds labels mode absolute\<rparr>), None)
      | d # rest \<Rightarrow> (cv\<lparr>axes := cleared_axes\<lparr>bars := drawn_bars ds labels mode absolute\<rparr>\<rparr>,
                     Some (loop_error mode d)))"
proof -
  let ?tl = "make_ticklabels mode (max_order ds)"
  have n: "length ?tl = n_ticks ds"
    by (simp add: length_make_ticklabels n_ticks_def)
  have lab: "0 + length ds \<le> length labels" using assms(3) by simp
  show ?thesis
  proof (cases "dropWhile (vector_fits mode (n_ticks ds)) ds")
    case Nil
    show ?thesis
      unfolding plot_body_def Let_def max_Nzer_set [OF assms(1,2)] sum.case option.case
        bar_loop_eq [OF lab] n Nil list.case prod.case
      by (simp add: axes_clear_def cleared_axes_def chart_axes_def drawn_bars_def)
  next
    case (Cons d rest)
    show ?thesis
      unfolding plot_body_def Let_def max_Nzer_set [OF assms(1,2)] sum.case option.case
        bar_loop_eq [OF lab] n Cons list.case prod.case
      by (simp add: axes_clear_def cleared_axes_def chart_axes_def drawn_bars_def)
  qed
qed

lemma map_filter_distortion_of: "List.map_filter distortion_of (map PyDistortion ds) = ds"
  by (induction ds) (simp_all add: List.map_filter_simps distortion_of_def)

lemma map_filter_str_of: "List.map_filter str_of (map PyStr ls) = ls"
  by (induction ls) (simp_all add: List.map_filter_simps str_of_def)

lemma plot_bar_chart_typed:
  assumes "ds \<noteq> []" "length ls = length ds" "mode = ''x'' \<or> mode = ''y''"
  shows "plot_bar_chart (PyCanvas cv) (PyList (map PyDistortion ds)) (PyList (map PyStr ls)) (PyStr mode) absolute
       = (case plot_body cv ds ls mode absolute of
            (cv', Some e) \<Rightarrow> (PyCanvas cv', Inl e)
          | (cv', None) \<Rightarrow> (PyCanvas cv', Inr cv'))"
proof -
  have m: "(if PyStr mode = PyStr ''x'' then ''x'' else ''y'') = mode"
    using assms(3) by auto
  have ls: "ls \<noteq> []" using assms(1,2) by auto
  show ?thesis
    unfolding plot_bar_chart_def
    using assms ls m
    by (simp add: isinstance_list_def elems_def list_all_iff isinstance_ZernikeDistortion_def
        isinstance_str_def map_filter_distortion_of map_filter_str_of)
qed

text \<open>The three ways a call that passes the checks can end.\<close>

lemma plot_unset:
  assumes "ds \<noteq> []" "length ls = length ds" "mode = ''x'' \<or> mode = ''y''"
    and "\<not> orders_set ds"
  shows "\<exists>msg. plot_bar_chart (PyCanvas cv) (PyList (map PyDistortion ds)) (PyList (map PyStr ls))
           (PyStr mode) absolute
         = (PyCanvas (axes_clear cv), Inl (TypeError msg))"
proof -
  from plot_body_unset [OF assms(1,4)] obtain msg where
    "plot_body cv ds ls mode absolute = (axes_clear cv, Some (TypeError msg))" by blast
  then show ?thesis
    by (simp add: plot_bar_chart_typed [OF assms(1,2,3)])
qed

lemma plot_drawable:
  assumes "ds \<noteq> []" "length ls = length ds" "mode = ''x'' \<or> mode = ''y''"
    and "drawable mode ds"
  shows "plot_bar_chart (PyCanvas cv) (PyList (map PyDistortion ds)) (PyList (map PyStr ls))
           (PyStr mode) absolute
         = (PyCanvas (draw (cv\<lparr>axes := chart_axes ds ls mode absolute\<rparr>)),
            Inr (draw (cv\<lparr>axes := chart_axes ds ls mode absolute\<rparr>)))"
proof -
  have os: "orders_set ds" and all: "list_all (vector_fits mode (n_ticks ds)) ds"
    using assms(4) by (simp_all add: drawable_def)
  have dw: "dropWhile (vector_fits mode (n_ticks ds)) ds = []"
    using all by (simp add: list_all_iff dropWhile_eq_Nil_conv)
  have len: "length ds \<le> length ls" using assms(2) by simp
  have "plot_body cv ds ls mode absolute
      = (draw (cv\<lparr>axes := chart_axes ds ls mode absolute\<rparr>), None)"
    unfolding plot_body_loop [OF assms(1) os len] dw by simp
  then show ?thesis
    by (simp add: plot_bar_chart_typed [OF assms(1,2,3)])
qed

lemma plot_stops:
  assumes "ds \<noteq> []" "length ls = length ds" "mode = ''x'' \<or> mode = ''y''"
    and "orders_set ds" "\<not> list_all (vector_fits mode (n_ticks ds)) ds"
  shows "\<exists>d rest. dropWhile (vector_fits mode (n_ticks ds)) ds = d # rest
       \<and> plot_bar_chart (PyCanvas cv) (PyList (map PyDistortion ds)) (PyList (map PyStr ls))
           (PyStr mode) absolute
         = (PyCanvas (cv\<lparr>axes := cleared_axes\<lparr>bars := drawn_bars ds ls mode absolute\<rparr>\<rparr>),
            Inl (loop_error mode d))"
proof -
  have "dropWhile (vector_fits mode (n_ticks ds)) ds \<noteq> []"
    using assms(5) by (simp add: list_all_iff dropWhile_eq_Nil_conv)
  then obtain d rest where dr: "dropWhile (vector_fits mode (n_ticks ds)) ds = d # rest"
    by (cases "dropWhile (vector_fits mode (n_ticks ds)) ds") auto
  have len: "length ds \<le> length ls" using assms(2) by simp
  have "plot_body cv ds ls mode absolute
      = (cv\<lparr>axes := cleared_axes\<lparr>bars := drawn_bars ds ls mode absolute\<rparr>\<rparr>, Some (loop_error mode d))"
    unfolding plot_body_loop [OF assms(1,4) len] dr by simp
  then show ?thesis
    using dr by (simp add: plot_bar_chart_typed [OF assms(1,2,3)])
qed




section \<open>The checks of plot_bar_chart\<close>





section \<open>The containers on the axes\<close>

lemma length_drawn_bars: "length (drawn_bars ds ls mode absolute) \<le> length ds"
  by (simp add: drawn_bars_def length_takeWhile_le)

lemma length_drawn_bars_all:
  "list_all (vector_fits mode (n_ticks ds)) ds \<Longrightarrow> length (drawn_bars ds ls mode absolute) = length ds"
proof -
  assume "list_all (vector_fits mode (n_ticks ds)) ds"
  then have tw: "takeWhile (vector_fits mode (n_ticks ds)) ds = ds"
    by (simp add: list_all_iff)
  show ?thesis by (simp only: drawn_bars_def tw length_map length_enumerate)
qed

lemma length_drawn_bars_stop:
  "\<not> list_all (vector_fits mode (n_ticks ds)) ds \<Longrightarrow> length (drawn_bars ds ls mode absolute) < length ds"
proof -
  let ?P = "vector_fits mode (n_ticks ds)"
  assume "\<not> list_all ?P ds"
  then have "dropWhile ?P ds \<noteq> []"
    by (simp add: list_all_iff dropWhile_eq_Nil_conv)
  then have pos: "0 < length (dropWhile ?P ds)"
    by (rule length_greater_0_conv [THEN iffD2])
  have "length (takeWhile ?P ds) + length (dropWhile ?P ds) = length ds"
    by (simp only: length_append [symmetric] takeWhile_dropWhile_id)
  with pos have "length (takeWhile ?P ds) < length ds"
    by linarith
  then show ?thesis by (simp only: drawn_bars_def length_map length_enumerate)
qed

lemma drawn_bars_nth:
  assumes "i < length (drawn_bars ds ls mode absolute)"
  shows "drawn_bars ds ls mode absolute ! i = bar_of mode absolute ls (n_ticks ds) (length ds) (i, ds ! i)"
    and "vector_fits mode (n_ticks ds) (ds ! i)"
proof -
  let ?P = "vector_fits mode (n_ticks ds)"
  have i: "i < length (takeWhile ?P ds)" using assms by (simp add: drawn_bars_def)
  have nth: "takeWhile ?P ds ! i = ds ! i" using i by (rule takeWhile_nth)
  show "drawn_bars ds ls mode absolute ! i = bar_of mode absolute ls (n_ticks ds) (length ds) (i, ds ! i)"
    using i by (simp add: drawn_bars_def nth_enumerate_eq nth)
  have "takeWhile ?P ds ! i \<in> set (takeWhile ?P ds)" using i by (rule nth_mem)
  then show "?P (ds ! i)" unfolding nth by (rule set_takeWhileD [THEN conjunct2])
qed

lemma vector_fits_cases:
  assumes "vector_fits mode n d"
  obtains ps where "select_parameters mode d = Some ps" "length ps \<le> n"
  using assms by (auto simp: vector_fits_def split: option.splits)

lemma pad_to_nth:
  "length ps \<le> n \<Longrightarrow> j < n \<Longrightarrow> pad_to n ps ! j = (if j < length ps then ps ! j else 0)"
  by (simp add: pad_to_def nth_append)

lemma length_pad_to: "length ps \<le> n \<Longrightarrow> length (pad_to n ps) = n"
  by (simp add: pad_to_def)

lemma bar_of_height:
  assumes "select_parameters mode d = Some ps"
  shows "bar_height (bar_of mode absolute ls n k (i, d))
      = map (\<lambda>c. if absolute then \<bar>c\<bar> else c) (ps @ replicate (n - length ps) 0)"
  using assms by (simp add: bar_of_def pad_to_def)

lemma bar_of_height_nth:
  assumes "select_parameters mode d = Some ps" "length ps \<le> n" "j < n"
  shows "bar_height (bar_of mode absolute ls n k (i, d)) ! j
      = (let coefficient = (if j < length ps then ps ! j else 0)
         in if absolute then \<bar>coefficient\<bar> else coefficient)"
    and "length (bar_height (bar_of mode absolute ls n k (i, d))) = n"
  using assms by (simp_all add: bar_of_def length_pad_to pad_to_nth Let_def)

lemma union_adjacent_intervals:
  fixes a w :: rat
  assumes "0 \<le> w" "0 < k"
  shows "(\<Union>i<k. {a + of_nat i * w .. a + (of_nat i + 1) * w}) = {a .. a + of_nat k * w}"
  using assms(2)
proof (induction k)
  case 0
  then show ?case by simp
next
  case (Suc k)
  let ?F = "\<lambda>i::nat. {a + of_nat i * w .. a + (of_nat i + 1) * w}"
  have split: "(\<Union>i<Suc k. ?F i) = ?F k \<union> (\<Union>i<k. ?F i)"
    by (simp only: lessThan_Suc UN_insert)
  show ?case
  proof (cases "k = 0")
    case True
    then show ?thesis by (simp add: lessThan_Suc)
  next
    case False
    then have IH: "(\<Union>i<k. ?F i) = {a .. a + of_nat k * w}"
      using Suc.IH by simp
    have le1: "a \<le> a + of_nat k * w" using assms(1) by simp
    have le2: "a + of_nat k * w \<le> a + (of_nat k + 1) * w"
      using assms(1) by (simp add: algebra_simps)
    have "(\<Union>i<Suc k. ?F i) = {a .. a + of_nat k * w} \<union> ?F k"
      unfolding split IH by (rule Un_commute)
    also have "\<dots> = {a .. a + (of_nat k + 1) * w}"
      using le1 le2 by (rule ivl_disj_un_two_touch)
    finally show ?thesis by (simp add: add.commute)
  qed
qed

lemma arange_nth: "j < n \<Longrightarrow> arange n ! j = of_nat j"
  by (simp add: arange_def)

lemma length_arange: "length (arange n) = n"
  by (simp add: arange_def)

lemma bar_geometry:
  fixes k :: nat
  assumes "0 < k" "j < n"
  defines "w \<equiv> (8 / 10) / (of_nat k :: rat)"
  shows "bar_width (bar_of mode absolute ls n k (i, d)) = w"
    and "length (bar_x (bar_of mode absolute ls n k (i, d))) = n"
    and "bar_x (bar_of mode absolute ls n k (i, d)) ! j = of_nat j - 4 / 10 + (2 * of_nat i + 1) * (4 / 10) / of_nat k"
    and "bar_left (bar_of mode absolute ls n k (i, d)) j = (of_nat j - 4 / 10) + of_nat i * w"
    and "bar_right (bar_of mode absolute ls n k (i, d)) j = (of_nat j - 4 / 10) + (of_nat i + 1) * w"
  using assms(1,2)
  by (simp_all add: bar_of_def bar_left_def bar_right_def arange_nth w_def arange_def field_simps)

text \<open>
  The canvas after a call that passes the checks: the containers on its axes, and
  the result of the call.
\<close>

lemma plot_canvas_after:
  assumes "ds \<noteq> []" "length ls = length ds" "mode = ''x'' \<or> mode = ''y''"
  shows "\<exists>cv''. fst (plot_bar_chart (PyCanvas cv) (PyList (map PyDistortion ds))
                    (PyList (map PyStr ls)) (PyStr mode) absolute) = PyCanvas cv''
      \<and> bars (axes cv'') = (if orders_set ds then drawn_bars ds ls mode absolute else [])
      \<and> (if drawable mode ds
         then snd (plot_bar_chart (PyCanvas cv) (PyList (map PyDistortion ds))
                    (PyList (map PyStr ls)) (PyStr mode) absolute) = Inr cv''
            \<and> axes cv'' = chart_axes ds ls mode absolute
         else (\<exists>e. snd (plot_bar_chart (PyCanvas cv) (PyList (map PyDistortion ds))
                    (PyList (map PyStr ls)) (PyStr mode) absolute) = Inl e)
            \<and> axes cv'' = cleared_axes\<lparr>bars :=
                  if orders_set ds then drawn_bars ds ls mode absolute else []\<rparr>)"
proof (cases "orders_set ds")
  case False
  from plot_unset [OF assms False] obtain msg where
    "plot_bar_chart (PyCanvas cv) (PyList (map PyDistortion ds)) (PyList (map PyStr ls))
           (PyStr mode) absolute = (PyCanvas (axes_clear cv), Inl (TypeError msg))" by blast
  then show ?thesis using False by (simp add: axes_clear_def cleared_axes_def drawable_def)
next
  case True
  show ?thesis
  proof (cases "list_all (vector_fits mode (n_ticks ds)) ds")
    case all: True
    have d: "drawable mode ds" using True all by (simp add: drawable_def)
    from plot_drawable [OF assms this] show ?thesis
      using True d by (simp add: draw_def chart_axes_def)
  next
    case False
    from plot_stops [OF assms True False] obtain d rest where
      "plot_bar_chart (PyCanvas cv) (PyList (map PyDistortion ds)) (PyList (map PyStr ls))
           (PyStr mode) absolute
         = (PyCanvas (cv\<lparr>axes := cleared_axes\<lparr>bars := drawn_bars ds ls mode absolute\<rparr>\<rparr>),
            Inl (loop_error mode d))" by blast
    then show ?thesis using True False by (simp add: drawable_def)
  qed
qed

lemma drawable_length:
  "drawable mode ds \<Longrightarrow> length (drawn_bars ds ls mode absolute) = length ds"
  by (simp add: drawable_def length_drawn_bars_all)

lemma not_drawable_length:
  "\<not> drawable mode ds \<Longrightarrow> ds \<noteq> [] \<Longrightarrow>
   length (if orders_set ds then drawn_bars ds ls mode absolute else []) < length ds"
  by (auto simp: drawable_def length_drawn_bars_stop)

lemma max_order_is_max:
  assumes "ds \<noteq> []" "orders_set ds"
  shows "\<exists>d \<in> set ds. Nzer d = Some (max_order ds)"
    and "\<forall>d \<in> set ds. \<exists>n. Nzer d = Some n \<and> n \<le> max_order ds"
proof -
  let ?S = "(\<lambda>d. the (Nzer d)) ` set ds"
  have fin: "finite ?S" and ne: "?S \<noteq> {}" using assms(1) by simp_all
  have some: "\<And>d. d \<in> set ds \<Longrightarrow> Nzer d = Some (the (Nzer d))"
    using assms(2) by (auto simp: orders_set_def list_all_iff)
  have "Max ?S \<in> ?S" using fin ne by (rule Max_in)
  then obtain d where "d \<in> set ds" "the (Nzer d) = max_order ds"
    by (auto simp: max_order_def)
  then show "\<exists>d \<in> set ds. Nzer d = Some (max_order ds)"
    using some by force
  show "\<forall>d \<in> set ds. \<exists>n. Nzer d = Some n \<and> n \<le> max_order ds"
  proof
    fix d assume d: "d \<in> set ds"
    then have "the (Nzer d) \<le> Max ?S" using fin by (intro Max_ge) auto
    then have "the (Nzer d) \<le> max_order ds" by (simp add: max_order_def)
    with some [OF d] show "\<exists>n. Nzer d = Some n \<and> n \<le> max_order ds"
      by blast
  qed
qed

lemma plot_outcome:
  assumes "ds \<noteq> []" "length ls = length ds" "mode = ''x'' \<or> mode = ''y''"
  obtains cv'' where
      "fst (plot_bar_chart (PyCanvas cv) (PyList (map PyDistortion ds))
             (PyList (map PyStr ls)) (PyStr mode) absolute) = PyCanvas cv''"
    and "length (bars (axes cv'')) \<le> length ds"
    and "\<And>i. i < length (bars (axes cv'')) \<Longrightarrow>
           bars (axes cv'') ! i = bar_of mode absolute ls (n_ticks ds) (length ds) (i, ds ! i)
         \<and> vector_fits mode (n_ticks ds) (ds ! i)"
    and "drawable mode ds \<Longrightarrow>
           snd (plot_bar_chart (PyCanvas cv) (PyList (map PyDistortion ds))
                 (PyList (map PyStr ls)) (PyStr mode) absolute) = Inr cv''
         \<and> length (bars (axes cv'')) = length ds
         \<and> xticks (axes cv'') = arange (n_ticks ds)
         \<and> xticklabels (axes cv'') = make_ticklabels mode (max_order ds)"
    and "\<not> drawable mode ds \<Longrightarrow>
           (\<exists>e. snd (plot_bar_chart (PyCanvas cv) (PyList (map PyDistortion ds))
                 (PyList (map PyStr ls)) (PyStr mode) absolute) = Inl e)
         \<and> length (bars (axes cv'')) < length ds
         \<and> xticklabels (axes cv'') = []"
proof -
  let ?r = "plot_bar_chart (PyCanvas cv) (PyList (map PyDistortion ds))
             (PyList (map PyStr ls)) (PyStr mode) absolute"
  let ?bs = "if orders_set ds then drawn_bars ds ls mode absolute else []"
  from plot_canvas_after [OF assms, of cv absolute] obtain cv'' where
    f: "fst ?r = PyCanvas cv''" and b: "bars (axes cv'') = ?bs"
    and o: "if drawable mode ds then snd ?r = Inr cv'' \<and> axes cv'' = chart_axes ds ls mode absolute
            else (\<exists>e. snd ?r = Inl e) \<and> axes cv'' = cleared_axes\<lparr>bars := ?bs\<rparr>"
    by blast
  have len: "length (bars (axes cv'')) \<le> length ds"
    unfolding b by (simp add: length_drawn_bars)
  have nth: "\<And>i. i < length (bars (axes cv'')) \<Longrightarrow>
           bars (axes cv'') ! i = bar_of mode absolute ls (n_ticks ds) (length ds) (i, ds ! i)
         \<and> vector_fits mode (n_ticks ds) (ds ! i)"
  proof -
    fix i assume "i < length (bars (axes cv''))"
    then have os: "orders_set ds" and i: "i < length (drawn_bars ds ls mode absolute)"
      unfolding b by (simp_all split: if_splits)
    show "bars (axes cv'') ! i = bar_of mode absolute ls (n_ticks ds) (length ds) (i, ds ! i)
         \<and> vector_fits mode (n_ticks ds) (ds ! i)"
      unfolding b using os drawn_bars_nth [OF i] by simp
  qed
  have yes: "drawable mode ds \<Longrightarrow>
           snd ?r = Inr cv'' \<and> length (bars (axes cv'')) = length ds
         \<and> xticks (axes cv'') = arange (n_ticks ds)
         \<and> xticklabels (axes cv'') = make_ticklabels mode (max_order ds)"
  proof -
    assume d: "drawable mode ds"
    then have "snd ?r = Inr cv''" "axes cv'' = chart_axes ds ls mode absolute"
      using o by simp_all
    then show ?thesis
      using drawable_length [OF d, of ls absolute] by (simp add: chart_axes_def)
  qed
  have no: "\<not> drawable mode ds \<Longrightarrow>
           (\<exists>e. snd ?r = Inl e) \<and> length (bars (axes cv'')) < length ds
         \<and> xticklabels (axes cv'') = []"
  proof -
    assume d: "\<not> drawable mode ds"
    then have "\<exists>e. snd ?r = Inl e" "axes cv'' = cleared_axes\<lparr>bars := ?bs\<rparr>"
      using o by simp_all
    then show ?thesis
      using not_drawable_length [OF d assms(1), of ls absolute] b
      by (simp add: cleared_axes_def)
  qed
  from f len nth yes no show ?thesis by (rule that)
qed

section \<open>What update_plot decides\<close>

lemma collect_selected_eq:
  "collect_selected fd its (ds, ls) =
     (ds @ map (\<lambda>it. the (fd (item_text it))) (filter (\<lambda>it. item_text it \<in> dom fd) its),
      ls @ map (\<lambda>it. truncate_filename (item_text it)) (filter (\<lambda>it. item_text it \<in> dom fd) its))"
  by (induction its arbitrary: ds ls) (auto simp: Let_def split: option.splits)

lemma collect_nonempty_iff:
  "fst (collect_selected fd (selectedItems its) ([], [])) \<noteq> []
     \<longleftrightarrow> (\<exists>it \<in> set its. item_selected it \<and> item_text it \<in> dom fd)"
  by (auto simp: collect_selected_eq selectedItems_def filter_empty_conv)

lemma figure_prefixes_exclusive: "startswith s ''Figure 2'' \<Longrightarrow> \<not> startswith s ''Figure 1''"
  by (auto simp: startswith_def)

lemma update_plot_decision_canvas: "update_plot_decision (s\<lparr>canvas := cv\<rparr>) = update_plot_decision s"
  by (simp add: update_plot_decision_def Let_def)

lemma decision_no_data:
  "\<not> (\<exists>it \<in> set (file_list s). item_selected it \<and> item_text it \<in> dom (file_data s))
    \<Longrightarrow> update_plot_decision s = DrawEmpty"
  using collect_nonempty_iff [of "file_data s" "file_list s"]
  by (auto simp: update_plot_decision_def Let_def split: prod.splits)

lemma decision_with_data:
  assumes "\<exists>it \<in> set (file_list s). item_selected it \<and> item_text it \<in> dom (file_data s)"
  shows "update_plot_decision s =
     (if startswith (figure_selector s) ''Figure 1''
      then CallPlot \<lparr>call_distortions = fst (collect_selected (file_data s) (selectedItems (file_list s)) ([], [])),
             call_labels = snd (collect_selected (file_data s) (selectedItems (file_list s)) ([], [])),
             call_mode = ''x'', call_absolute = abs_checkbox s\<rparr>
      else if startswith (figure_selector s) ''Figure 2''
      then CallPlot \<lparr>call_distortions = fst (collect_selected (file_data s) (selectedItems (file_list s)) ([], [])),
             call_labels = snd (collect_selected (file_data s) (selectedItems (file_list s)) ([], [])),
             call_mode = ''y'', call_absolute = abs_checkbox s\<rparr>
      else NoCall)"
proof -
  have ne: "fst (collect_selected (file_data s) (selectedItems (file_list s)) ([], [])) \<noteq> []"
    using assms collect_nonempty_iff [of "file_data s" "file_list s"] by blast
  then have sel: "selectedItems (file_list s) \<noteq> []"
    by (auto simp: collect_selected_eq)
  show ?thesis
    using ne sel by (auto simp: update_plot_decision_def Let_def split: prod.splits)
qed

lemma decision_absolute:
  "update_plot_decision s = CallPlot c \<Longrightarrow> call_absolute c = abs_checkbox s"
  by (auto simp: update_plot_decision_def Let_def split: prod.splits if_splits)

section \<open>The loading loop of dropEvent\<close>

lemma texts_addItem: "texts (addItem p its) = texts its @ [p]"
  by (simp add: texts_def addItem_def)

lemma drop_load_skip:
  "toLocalFile u = [] \<or> toLocalFile u \<in> dom (file_data s)
    \<Longrightarrow> drop_load rt (u # urls) (s, n) = drop_load rt urls (s, n)"
  by (simp add: Let_def)

lemma drop_load_read:
  "toLocalFile u \<noteq> [] \<Longrightarrow> toLocalFile u \<notin> dom (file_data s) \<Longrightarrow> rt (toLocalFile u) = Inr d
    \<Longrightarrow> drop_load rt (u # urls) (s, n)
        = drop_load rt urls
            (s\<lparr>read_calls := read_calls s @ [toLocalFile u],
               file_data := (file_data s)(toLocalFile u \<mapsto> d),
               file_list := addItem (toLocalFile u) (file_list s)\<rparr>, n + 1)"
  by (simp add: Let_def)

lemma drop_load_fail:
  "toLocalFile u \<noteq> [] \<Longrightarrow> toLocalFile u \<notin> dom (file_data s) \<Longrightarrow> rt (toLocalFile u) = Inl e
    \<Longrightarrow> drop_load rt (u # urls) (s, n)
        = drop_load rt urls
            (s\<lparr>read_calls := read_calls s @ [toLocalFile u],
               warnings := warnings s @ [read_warning (toLocalFile u) e]\<rparr>, n)"
  by (simp add: Let_def read_warning_def)

lemma drop_load_cases:
  obtains (skip) "toLocalFile u = [] \<or> toLocalFile u \<in> dom (file_data s)"
  | (read) d where "toLocalFile u \<noteq> []" "toLocalFile u \<notin> dom (file_data s)" "rt (toLocalFile u) = Inr d"
  | (fail) e where "toLocalFile u \<noteq> []" "toLocalFile u \<notin> dom (file_data s)" "rt (toLocalFile u) = Inl e"
  by (cases "rt (toLocalFile u)") blast+

lemma drop_load_file_data:
  "file_data (fst (drop_load rt urls (s, n)))
     = load_result rt (\<lambda>q. q \<noteq> []) (map toLocalFile urls) (file_data s)"
proof (induction urls arbitrary: s n)
  case Nil
  show ?case by (auto simp: load_result_def split: option.splits)
next
  case (Cons u urls)
  show ?case
  proof (cases rule: drop_load_cases [where u = u and s = s and rt = rt])
    case skip
    then show ?thesis
      unfolding drop_load_skip [where rt = rt, OF skip] Cons.IH
      by (auto simp: load_result_def fun_eq_iff split: option.splits)
  next
    case (read d)
    show ?thesis
      unfolding drop_load_read [where rt = rt, OF read] Cons.IH using read
      by (auto simp: load_result_def fun_eq_iff split: option.splits)
  next
    case (fail e)
    show ?thesis
      unfolding drop_load_fail [where rt = rt, OF fail] Cons.IH using fail
      by (auto simp: load_result_def fun_eq_iff split: option.splits)
  qed
qed

lemma drop_load_warnings:
  "warnings (fst (drop_load rt urls (s, n)))
     = warnings s @ map (\<lambda>q. read_warning q (projl (rt q)))
         (filter (\<lambda>q. q \<noteq> [] \<and> q \<notin> dom (file_data s) \<and> isl (rt q)) (map toLocalFile urls))"
proof (induction urls arbitrary: s n)
  case Nil
  show ?case by simp
next
  case (Cons u urls)
  show ?case
  proof (cases rule: drop_load_cases [where u = u and s = s and rt = rt])
    case skip
    then show ?thesis
      unfolding drop_load_skip [where rt = rt, OF skip] Cons.IH by auto
  next
    case (read d)
    have "filter (\<lambda>q. q \<noteq> [] \<and> q \<notin> dom ((file_data s)(toLocalFile u \<mapsto> d)) \<and> isl (rt q)) (map toLocalFile urls)
        = filter (\<lambda>q. q \<noteq> [] \<and> q \<notin> dom (file_data s) \<and> isl (rt q)) (map toLocalFile urls)"
      using read(3) by (intro filter_cong) auto
    then show ?thesis
      unfolding drop_load_read [where rt = rt, OF read] Cons.IH using read by simp
  next
    case (fail e)
    show ?thesis
      unfolding drop_load_fail [where rt = rt, OF fail] Cons.IH using fail by simp
  qed
qed

lemma drop_load_count:
  "count_list (texts (file_list (fst (drop_load rt urls (s, n))))) q
     = count_list (texts (file_list s)) q
       + (if q \<noteq> [] \<and> q \<in> toLocalFile ` set urls \<and> q \<notin> dom (file_data s) \<and> \<not> isl (rt q)
          then 1 else 0)"
proof (induction urls arbitrary: s n)
  case Nil
  show ?case by simp
next
  case (Cons u urls)
  show ?case
  proof (cases rule: drop_load_cases [where u = u and s = s and rt = rt])
    case skip
    then show ?thesis
      unfolding drop_load_skip [where rt = rt, OF skip] Cons.IH by auto
  next
    case (read d)
    show ?thesis
      unfolding drop_load_read [where rt = rt, OF read] Cons.IH using read
      by (auto simp: texts_addItem)
  next
    case (fail e)
    show ?thesis
      unfolding drop_load_fail [where rt = rt, OF fail] Cons.IH using fail by auto
  qed
qed

lemma drop_load_stable:
  assumes "\<forall>u \<in> set urls. toLocalFile u = [] \<or> toLocalFile u \<in> dom (file_data s) \<or> isl (rt (toLocalFile u))"
  shows "file_data (fst (drop_load rt urls (s, n))) = file_data s
       \<and> file_list (fst (drop_load rt urls (s, n))) = file_list s
       \<and> snd (drop_load rt urls (s, n)) = n"
  using assms
proof (induction urls arbitrary: s n)
  case Nil
  show ?case by simp
next
  case (Cons u urls)
  show ?case
  proof (cases rule: drop_load_cases [where u = u and s = s and rt = rt])
    case skip
    show ?thesis
      unfolding drop_load_skip [where rt = rt, OF skip] using Cons.prems by (intro Cons.IH) simp
  next
    case (read d)
    then show ?thesis using Cons.prems by simp
  next
    case (fail e)
    let ?s = "s\<lparr>read_calls := read_calls s @ [toLocalFile u],
               warnings := warnings s @ [read_warning (toLocalFile u) e]\<rparr>"
    have "\<forall>u \<in> set urls. toLocalFile u = [] \<or> toLocalFile u \<in> dom (file_data ?s) \<or> isl (rt (toLocalFile u))"
      using Cons.prems by simp
    from Cons.IH [OF this, of n] show ?thesis
      unfolding drop_load_fail [where rt = rt, OF fail] by simp
  qed
qed

lemma drop_load_skip_all:
  assumes "\<forall>u \<in> set urls. toLocalFile u = [] \<or> toLocalFile u \<in> dom (file_data s)"
  shows "drop_load rt urls (s, n) = (s, n)"
  using assms
proof (induction urls)
  case Nil
  show ?case by simp
next
  case (Cons u urls)
  then show ?case by (simp add: Let_def)
qed

lemma drop_load_read_calls:
  "\<exists>new. read_calls (fst (drop_load rt urls (s, n))) = read_calls s @ new
        \<and> set new \<inter> dom (file_data s) = {} \<and> [] \<notin> set new"
proof (induction urls arbitrary: s n)
  case Nil
  show ?case by simp
next
  case (Cons u urls)
  show ?case
  proof (cases rule: drop_load_cases [where u = u and s = s and rt = rt])
    case skip
    show ?thesis
      unfolding drop_load_skip [where rt = rt, OF skip] by (rule Cons.IH)
  next
    case (read d)
    let ?s = "s\<lparr>read_calls := read_calls s @ [toLocalFile u],
               file_data := (file_data s)(toLocalFile u \<mapsto> d),
               file_list := addItem (toLocalFile u) (file_list s)\<rparr>"
    from Cons.IH [of ?s "n + 1"] obtain new where
      new: "read_calls (fst (drop_load rt urls (?s, n + 1))) = read_calls ?s @ new"
        "set new \<inter> dom (file_data ?s) = {}" "[] \<notin> set new"
      by blast
    have "read_calls (fst (drop_load rt (u # urls) (s, n))) = read_calls s @ (toLocalFile u # new)"
      unfolding drop_load_read [where rt = rt, OF read] using new(1) by simp
    moreover have "set (toLocalFile u # new) \<inter> dom (file_data s) = {}"
      using new(2) read(2) by auto
    moreover have "[] \<notin> set (toLocalFile u # new)"
      using new(3) read(1) by auto
    ultimately show ?thesis by blast
  next
    case (fail e)
    let ?s = "s\<lparr>read_calls := read_calls s @ [toLocalFile u],
               warnings := warnings s @ [read_warning (toLocalFile u) e]\<rparr>"
    from Cons.IH [of ?s n] obtain new where
      new: "read_calls (fst (drop_load rt urls (?s, n))) = read_calls ?s @ new"
        "set new \<inter> dom (file_data ?s) = {}" "[] \<notin> set new"
      by blast
    have "read_calls (fst (drop_load rt (u # urls) (s, n))) = read_calls s @ (toLocalFile u # new)"
      unfolding drop_load_fail [where rt = rt, OF fail] using new(1) by simp
    moreover have "set (toLocalFile u # new) \<inter> dom (file_data s) = {}"
      using new(2) fail(2) by auto
    moreover have "[] \<notin> set (toLocalFile u # new)"
      using new(3) fail(1) by auto
    ultimately show ?thesis by blast
  qed
qed

lemma texts_select_all_matching: "texts (select_all_matching p its) = texts its"
  by (induction its) (simp_all add: texts_def select_all_matching_def)

lemma drop_select_frame:
  "file_data (drop_select urls s) = file_data s"
  "texts (file_list (drop_select urls s)) = texts (file_list s)"
  "warnings (drop_select urls s) = warnings s"
  "read_calls (drop_select urls s) = read_calls s"
  by (induction urls arbitrary: s) (simp_all add: Let_def texts_select_all_matching)

lemma reset_style_frame:
  "file_data (reset_style s) = file_data s"
  "file_list (reset_style s) = file_list s"
  "warnings (reset_style s) = warnings s"
  "read_calls (reset_style s) = read_calls s"
  by (simp_all add: reset_style_def)

lemma dropEvent_eq:
  "file_data (dropEvent rt urls s) = file_data (fst (drop_load rt urls (reset_style s, 0)))"
  "texts (file_list (dropEvent rt urls s)) = texts (file_list (fst (drop_load rt urls (reset_style s, 0))))"
  "warnings (dropEvent rt urls s) = warnings (fst (drop_load rt urls (reset_style s, 0)))"
  "read_calls (dropEvent rt urls s) = read_calls (fst (drop_load rt urls (reset_style s, 0)))"
  by (simp_all add: dropEvent_def drop_select_frame split: prod.splits)

lemma dropEvent_file_data:
  "file_data (dropEvent rt urls s) = load_result rt (\<lambda>q. q \<noteq> []) (map toLocalFile urls) (file_data s)"
  by (simp add: dropEvent_eq drop_load_file_data reset_style_frame)

lemma dropEvent_warnings:
  "warnings (dropEvent rt urls s)
     = warnings s @ map (\<lambda>q. read_warning q (projl (rt q)))
         (filter (\<lambda>q. q \<noteq> [] \<and> q \<notin> dom (file_data s) \<and> isl (rt q)) (map toLocalFile urls))"
  by (simp add: dropEvent_eq drop_load_warnings reset_style_frame)

lemma dropEvent_count:
  "count_list (texts (file_list (dropEvent rt urls s))) q
     = count_list (texts (file_list s)) q
       + (if q \<noteq> [] \<and> q \<in> toLocalFile ` set urls \<and> q \<notin> dom (file_data s) \<and> \<not> isl (rt q)
          then 1 else 0)"
  by (simp only: dropEvent_eq drop_load_count reset_style_frame)

lemma dropEvent_stable:
  assumes "\<forall>u \<in> set urls. toLocalFile u = [] \<or> toLocalFile u \<in> dom (file_data s) \<or> isl (rt (toLocalFile u))"
  shows "file_data (dropEvent rt urls s) = file_data s"
    and "texts (file_list (dropEvent rt urls s)) = texts (file_list s)"
proof -
  have "\<forall>u \<in> set urls. toLocalFile u = [] \<or> toLocalFile u \<in> dom (file_data (reset_style s))
      \<or> isl (rt (toLocalFile u))"
    using assms by (simp add: reset_style_frame)
  from drop_load_stable [OF this, of 0]
  show "file_data (dropEvent rt urls s) = file_data s"
    and "texts (file_list (dropEvent rt urls s)) = texts (file_list s)"
    by (simp_all add: dropEvent_eq reset_style_frame)
qed

lemma dropEvent_read_calls:
  "\<exists>new. read_calls (dropEvent rt urls s) = read_calls s @ new
        \<and> set new \<inter> dom (file_data s) = {} \<and> [] \<notin> set new"
  using drop_load_read_calls [of rt urls "reset_style s" 0]
  by (simp add: dropEvent_eq reset_style_frame)

lemma dropEvent_settles:
  "\<forall>u \<in> set urls. toLocalFile u = [] \<or> toLocalFile u \<in> dom (file_data (dropEvent rt urls s))
      \<or> isl (rt (toLocalFile u))"
  by (auto simp: dropEvent_file_data load_result_def split: option.splits sum.splits)

section \<open>The loading loop of open_files\<close>

lemma texts_setCurrentItem_first: "texts (setCurrentItem_first sel p its) = texts its"
proof (cases "first_row p its")
  case None
  then show ?thesis by (simp add: setCurrentItem_first_def)
next
  case (Some r)
  have "map (\<lambda>j. item_text (its ! j)) [0..<length its] = map item_text its"
    by (rule nth_equalityI) simp_all
  then show ?thesis
    using Some by (simp add: setCurrentItem_first_def texts_def comp_def)
qed

lemma open_load_skip:
  "p \<in> dom (file_data s)
    \<Longrightarrow> open_load rt sel (p # paths) s
        = open_load rt sel paths (s\<lparr>file_list := setCurrentItem_first sel p (file_list s)\<rparr>)"
  by simp

lemma open_load_read:
  "p \<notin> dom (file_data s) \<Longrightarrow> rt p = Inr d
    \<Longrightarrow> open_load rt sel (p # paths) s
        = open_load rt sel paths
            (s\<lparr>read_calls := read_calls s @ [p],
               file_data := (file_data s)(p \<mapsto> d),
               file_list := addItem p (file_list s)\<rparr>)"
  by simp

lemma open_load_fail:
  "p \<notin> dom (file_data s) \<Longrightarrow> rt p = Inl e
    \<Longrightarrow> open_load rt sel (p # paths) s
        = open_load rt sel paths
            (s\<lparr>read_calls := read_calls s @ [p],
               warnings := warnings s @ [read_warning p e]\<rparr>)"
  by (simp add: read_warning_def)

lemma open_load_cases:
  obtains (skip) "p \<in> dom (file_data s)"
  | (read) d where "p \<notin> dom (file_data s)" "rt p = Inr d"
  | (fail) e where "p \<notin> dom (file_data s)" "rt p = Inl e"
  by (cases "rt p") blast+

lemma open_load_file_data:
  "file_data (open_load rt sel paths s) = load_result rt (\<lambda>q. True) paths (file_data s)"
proof (induction paths arbitrary: s)
  case Nil
  show ?case by (auto simp: load_result_def split: option.splits)
next
  case (Cons p paths)
  show ?case
  proof (cases rule: open_load_cases [where p = p and s = s and rt = rt])
    case skip
    then show ?thesis
      unfolding open_load_skip [where rt = rt, OF skip] Cons.IH
      by (auto simp: load_result_def fun_eq_iff split: option.splits)
  next
    case (read d)
    show ?thesis
      unfolding open_load_read [where rt = rt, OF read] Cons.IH using read
      by (auto simp: load_result_def fun_eq_iff split: option.splits)
  next
    case (fail e)
    show ?thesis
      unfolding open_load_fail [where rt = rt, OF fail] Cons.IH using fail
      by (auto simp: load_result_def fun_eq_iff split: option.splits)
  qed
qed

lemma open_load_warnings:
  "warnings (open_load rt sel paths s)
     = warnings s @ map (\<lambda>q. read_warning q (projl (rt q)))
         (filter (\<lambda>q. q \<notin> dom (file_data s) \<and> isl (rt q)) paths)"
proof (induction paths arbitrary: s)
  case Nil
  show ?case by simp
next
  case (Cons p paths)
  show ?case
  proof (cases rule: open_load_cases [where p = p and s = s and rt = rt])
    case skip
    then show ?thesis
      unfolding open_load_skip [where rt = rt, OF skip] Cons.IH by auto
  next
    case (read d)
    have "filter (\<lambda>q. q \<notin> dom ((file_data s)(p \<mapsto> d)) \<and> isl (rt q)) paths
        = filter (\<lambda>q. q \<notin> dom (file_data s) \<and> isl (rt q)) paths"
      using read(2) by (intro filter_cong) auto
    then show ?thesis
      unfolding open_load_read [where rt = rt, OF read] Cons.IH using read by simp
  next
    case (fail e)
    show ?thesis
      unfolding open_load_fail [where rt = rt, OF fail] Cons.IH using fail by simp
  qed
qed

lemma open_load_count:
  "count_list (texts (file_list (open_load rt sel paths s))) q
     = count_list (texts (file_list s)) q
       + (if q \<in> set paths \<and> q \<notin> dom (file_data s) \<and> \<not> isl (rt q) then 1 else 0)"
proof (induction paths arbitrary: s)
  case Nil
  show ?case by simp
next
  case (Cons p paths)
  show ?case
  proof (cases rule: open_load_cases [where p = p and s = s and rt = rt])
    case skip
    then show ?thesis
      unfolding open_load_skip [where rt = rt, OF skip] Cons.IH
      by (auto simp: texts_setCurrentItem_first)
  next
    case (read d)
    show ?thesis
      unfolding open_load_read [where rt = rt, OF read] Cons.IH using read
      by (auto simp: texts_addItem)
  next
    case (fail e)
    show ?thesis
      unfolding open_load_fail [where rt = rt, OF fail] Cons.IH using fail by auto
  qed
qed

lemma open_load_stable:
  assumes "\<forall>p \<in> set paths. p \<in> dom (file_data s) \<or> isl (rt p)"
  shows "file_data (open_load rt sel paths s) = file_data s
       \<and> texts (file_list (open_load rt sel paths s)) = texts (file_list s)"
  using assms
proof (induction paths arbitrary: s)
  case Nil
  show ?case by simp
next
  case (Cons p paths)
  show ?case
  proof (cases rule: open_load_cases [where p = p and s = s and rt = rt])
    case skip
    let ?s = "s\<lparr>file_list := setCurrentItem_first sel p (file_list s)\<rparr>"
    have "\<forall>p \<in> set paths. p \<in> dom (file_data ?s) \<or> isl (rt p)"
      using Cons.prems by simp
    from Cons.IH [OF this] show ?thesis
      unfolding open_load_skip [where rt = rt, OF skip] by (simp add: texts_setCurrentItem_first)
  next
    case (read d)
    then show ?thesis using Cons.prems by simp
  next
    case (fail e)
    let ?s = "s\<lparr>read_calls := read_calls s @ [p], warnings := warnings s @ [read_warning p e]\<rparr>"
    have "\<forall>p \<in> set paths. p \<in> dom (file_data ?s) \<or> isl (rt p)"
      using Cons.prems by simp
    from Cons.IH [OF this] show ?thesis
      unfolding open_load_fail [where rt = rt, OF fail] by simp
  qed
qed

lemma open_load_read_calls:
  "\<exists>new. read_calls (open_load rt sel paths s) = read_calls s @ new
        \<and> set new \<inter> dom (file_data s) = {}"
proof (induction paths arbitrary: s)
  case Nil
  show ?case by simp
next
  case (Cons p paths)
  show ?case
  proof (cases rule: open_load_cases [where p = p and s = s and rt = rt])
    case skip
    let ?s = "s\<lparr>file_list := setCurrentItem_first sel p (file_list s)\<rparr>"
    from Cons.IH [of ?s] show ?thesis
      unfolding open_load_skip [where rt = rt, OF skip] by simp
  next
    case (read d)
    let ?s = "s\<lparr>read_calls := read_calls s @ [p], file_data := (file_data s)(p \<mapsto> d),
               file_list := addItem p (file_list s)\<rparr>"
    from Cons.IH [of ?s] obtain new where
      new: "read_calls (open_load rt sel paths ?s) = read_calls ?s @ new"
        "set new \<inter> dom (file_data ?s) = {}"
      by blast
    have "read_calls (open_load rt sel (p # paths) s) = read_calls s @ (p # new)"
      unfolding open_load_read [where rt = rt, OF read] using new(1) by simp
    moreover have "set (p # new) \<inter> dom (file_data s) = {}"
      using new(2) read(1) by auto
    ultimately show ?thesis by blast
  next
    case (fail e)
    let ?s = "s\<lparr>read_calls := read_calls s @ [p], warnings := warnings s @ [read_warning p e]\<rparr>"
    from Cons.IH [of ?s] obtain new where
      new: "read_calls (open_load rt sel paths ?s) = read_calls ?s @ new"
        "set new \<inter> dom (file_data ?s) = {}"
      by blast
    have "read_calls (open_load rt sel (p # paths) s) = read_calls s @ (p # new)"
      unfolding open_load_fail [where rt = rt, OF fail] using new(1) by simp
    moreover have "set (p # new) \<inter> dom (file_data s) = {}"
      using new(2) fail(1) by auto
    ultimately show ?thesis by blast
  qed
qed

lemma texts_select_first_matching: "texts (select_first_matching p its) = texts its"
  by (induction its) (simp_all add: texts_def)

lemma open_select_frame:
  "file_data (open_select paths s) = file_data s"
  "texts (file_list (open_select paths s)) = texts (file_list s)"
  "warnings (open_select paths s) = warnings s"
  "read_calls (open_select paths s) = read_calls s"
  by (induction paths arbitrary: s) (simp_all add: texts_select_first_matching)

lemma update_plot_frame:
  "file_data (fst (update_plot s)) = file_data s"
  "file_list (fst (update_plot s)) = file_list s"
  "warnings (fst (update_plot s)) = warnings s"
  "read_calls (fst (update_plot s)) = read_calls s"
  by (simp_all add: update_plot_def Let_def split: plot_decision.splits prod.splits sum.splits)

lemma open_files_eq:
  "file_data (fst (open_files rt sel (Some paths) s)) = file_data (open_load rt sel paths s)"
  "texts (file_list (fst (open_files rt sel (Some paths) s))) = texts (file_list (open_load rt sel paths s))"
  "warnings (fst (open_files rt sel (Some paths) s)) = warnings (open_load rt sel paths s)"
  "read_calls (fst (open_files rt sel (Some paths) s)) = read_calls (open_load rt sel paths s)"
  by (simp_all add: open_files_def update_plot_frame open_select_frame)

lemma open_files_cancel: "open_files rt sel None s = (s, None)"
  by (simp add: open_files_def)

lemma open_files_settles:
  "\<forall>p \<in> set paths. p \<in> dom (file_data (fst (open_files rt sel (Some paths) s))) \<or> isl (rt p)"
  by (auto simp: open_files_eq open_load_file_data load_result_def split: option.splits sum.splits)

section \<open>The invariant of the file operations\<close>

lemma distinct_count_list:
  "distinct xs \<longleftrightarrow> (\<forall>a. count_list xs a = (if a \<in> set xs then 1 else 0))"
  by (induction xs) (auto simp: count_list_0_iff)

lemma files_invariant_count:
  "files_invariant s \<longleftrightarrow>
     (\<forall>q. count_list (texts (file_list s)) q = (if q \<in> dom (file_data s) then 1 else 0))"
proof
  assume "files_invariant s"
  then show "\<forall>q. count_list (texts (file_list s)) q = (if q \<in> dom (file_data s) then 1 else 0)"
    by (simp add: files_invariant_def distinct_count_list)
next
  assume c: "\<forall>q. count_list (texts (file_list s)) q = (if q \<in> dom (file_data s) then 1 else 0)"
  have "\<And>q. q \<in> set (texts (file_list s)) \<longleftrightarrow> q \<in> dom (file_data s)"
  proof -
    fix q
    have "q \<in> set (texts (file_list s)) \<longleftrightarrow> count_list (texts (file_list s)) q \<noteq> 0"
      by (simp add: count_list_0_iff)
    then show "q \<in> set (texts (file_list s)) \<longleftrightarrow> q \<in> dom (file_data s)"
      using c by simp
  qed
  then have d: "dom (file_data s) = set (texts (file_list s))" by blast
  then have "distinct (texts (file_list s))"
    using c by (simp add: distinct_count_list)
  with d show "files_invariant s" by (simp add: files_invariant_def)
qed

lemma dom_load_result:
  "dom (load_result rt ok paths fd) = dom fd \<union> {q. ok q \<and> q \<in> set paths \<and> \<not> isl (rt q)}"
  by (auto simp: load_result_def split: option.splits sum.splits if_splits)

lemma dropEvent_invariant: "files_invariant s \<Longrightarrow> files_invariant (dropEvent rt urls s)"
  unfolding files_invariant_count dropEvent_count dropEvent_file_data dom_load_result
  by auto

lemma open_files_invariant:
  "files_invariant s \<Longrightarrow> files_invariant (fst (open_files rt sel dialog s))"
proof (cases dialog)
  case None
  then show "files_invariant s \<Longrightarrow> ?thesis" by (simp add: open_files_cancel)
next
  case (Some paths)
  show "files_invariant s \<Longrightarrow> ?thesis"
    unfolding Some files_invariant_count open_files_eq open_load_count open_load_file_data
      dom_load_result
    by auto
qed

lemma remove_items_file_data:
  "file_data (remove_items sel s) = (\<lambda>q. if q \<in> item_text ` set sel then None else file_data s q)"
  by (induction sel arbitrary: s) (auto simp: Let_def fun_eq_iff)

lemma remove_items_file_list:
  "file_list (remove_items sel s) = fold remove1 sel (file_list s)"
  by (induction sel arbitrary: s) (simp_all add: Let_def)

lemma fold_remove1_filter:
  "\<forall>y \<in> set ys. \<not> P y \<Longrightarrow> fold remove1 (filter P xs) (ys @ xs) = ys @ filter (\<lambda>x. \<not> P x) xs"
proof (induction xs arbitrary: ys)
  case Nil
  show ?case by simp
next
  case (Cons x xs)
  show ?case
  proof (cases "P x")
    case True
    then have "x \<notin> set ys" using Cons.prems by blast
    then have "remove1 x (ys @ x # xs) = ys @ xs"
      by (simp add: remove1_append)
    then show ?thesis
      using True Cons.IH [OF Cons.prems] by simp
  next
    case False
    then have "\<forall>y \<in> set (ys @ [x]). \<not> P y" using Cons.prems by simp
    from Cons.IH [OF this] show ?thesis
      using False by simp
  qed
qed

lemma remove_selected_file_list:
  "file_list (fst (remove_selected_files s)) = filter (\<lambda>it. \<not> item_selected it) (file_list s)"
  using fold_remove1_filter [of "[]" item_selected "file_list s"]
  by (simp add: remove_selected_files_def update_plot_frame remove_items_file_list selectedItems_def)

lemma remove_selected_file_data:
  "file_data (fst (remove_selected_files s))
     = (\<lambda>q. if q \<in> item_text ` {it \<in> set (file_list s). item_selected it} then None
            else file_data s q)"
  by (simp add: remove_selected_files_def update_plot_frame remove_items_file_data selectedItems_def)

lemma remove_selected_invariant:
  assumes "files_invariant s"
  shows "files_invariant (fst (remove_selected_files s))"
proof -
  let ?its = "file_list s"
  have d: "distinct (map item_text ?its)" and dm: "dom (file_data s) = item_text ` set ?its"
    using assms by (simp_all add: files_invariant_def texts_def)
  have inj: "inj_on item_text (set ?its)"
    using d by (simp add: distinct_map)
  have "distinct (map item_text (filter (\<lambda>it. \<not> item_selected it) ?its))"
    using d by (rule distinct_map_filter)
  moreover have "dom (file_data (fst (remove_selected_files s)))
      = item_text ` set (filter (\<lambda>it. \<not> item_selected it) ?its)"
  proof -
    have "dom (file_data (fst (remove_selected_files s)))
        = dom (file_data s) - item_text ` {it \<in> set ?its. item_selected it}"
      unfolding remove_selected_file_data by (auto split: if_splits)
    also have "\<dots> = item_text ` set ?its - item_text ` {it \<in> set ?its. item_selected it}"
      by (simp only: dm)
    also have "\<dots> = item_text ` (set ?its - {it \<in> set ?its. item_selected it})"
      using inj by (intro inj_on_image_set_diff [symmetric]) auto
    also have "set ?its - {it \<in> set ?its. item_selected it}
        = set (filter (\<lambda>it. \<not> item_selected it) ?its)"
      by auto
    finally show ?thesis .
  qed
  ultimately show ?thesis
    by (simp add: files_invariant_def texts_def remove_selected_file_list)
qed

lemma init_invariant: "files_invariant init_UI"
  by (simp add: files_invariant_def init_UI_def texts_def)

lemma load_result_keeps: "fd p = Some d \<Longrightarrow> load_result rt ok paths fd p = Some d"
  by (simp add: load_result_def)

lemma load_result_fail: "isl (rt p) \<Longrightarrow> load_result rt ok paths fd p = fd p"
  by (auto simp: load_result_def split: option.splits sum.splits)

lemma load_result_new:
  "fd q = None \<Longrightarrow> ok q \<Longrightarrow> q \<in> set paths \<Longrightarrow> rt q = Inr d \<Longrightarrow> load_result rt ok paths fd q = Some d"
  by (simp add: load_result_def)

section \<open>The model at concrete inputs\<close>

text \<open>
  The definitions compute. Two distortions of orders 1 and 0 drawn side by side, a
  long file name, and a drop of four URLs on a window that already holds one file.
\<close>

lemma str_int_examples:
  "str_int 0 = ''0'' \<and> str_int 12 = ''12'' \<and> str_int (- 3) = ''-3'' \<and> str_int 105 = ''105''"
  by (simp add: str_int_def str_nat.simps digit_char_def)

lemma zernike_indices_example: "zernike_indices 2 = [(0, 0), (1, - 1), (1, 1), (2, - 2), (2, 0), (2, 2)]"
  by code_simp

lemma make_ticklabels_example:
  "make_ticklabels ''y'' 2 = [''Cy(0, 0)'', ''Cy(1, -1)'', ''Cy(1, 1)'', ''Cy(2, -2)'', ''Cy(2, 0)'', ''Cy(2, 2)'']"
  by code_simp

lemma truncate_filename_example:
  "truncate_filename ''/data/run/abcdefghijklmnopqrstuvwxyz0123456789.json'' = ''abcdefghijklm...23456789.json''
   \<and> truncate_filename ''/data/a.json'' = ''a.json''"
  by code_simp

lemma plot_example:
  "snd (plot_bar_chart (PyCanvas example_canvas) (PyList [PyDistortion example_d1, PyDistortion example_d2])
         (PyList [PyStr ''a.json'', PyStr ''b.json'']) (PyStr ''x'') True)
   = Inr \<lparr>axes = \<lparr>bars =
         [\<lparr>bar_x = [- (1 / 5), 4 / 5, 9 / 5], bar_height = [1, 2, 3],
             bar_width = 2 / 5, bar_label = ''a.json'', bar_color = 0\<rparr>,
          \<lparr>bar_x = [1 / 5, 6 / 5, 11 / 5], bar_height = [4, 0, 0],
             bar_width = 2 / 5, bar_label = ''b.json'', bar_color = 1 / 2\<rparr>],
         xticks = [0, 1, 2],
         xticklabels = [''Cx(0, 0)'', ''Cx(1, -1)'', ''Cx(1, 1)''],
         title = ''Zernike Coefficients [x-axis]'', legend_shown = True,
         grid_shown = True\<rparr>,
      rendered = \<lparr>bars =
         [\<lparr>bar_x = [- (1 / 5), 4 / 5, 9 / 5], bar_height = [1, 2, 3],
             bar_width = 2 / 5, bar_label = ''a.json'', bar_color = 0\<rparr>,
          \<lparr>bar_x = [1 / 5, 6 / 5, 11 / 5], bar_height = [4, 0, 0],
             bar_width = 2 / 5, bar_label = ''b.json'', bar_color = 1 / 2\<rparr>],
         xticks = [0, 1, 2],
         xticklabels = [''Cx(0, 0)'', ''Cx(1, -1)'', ''Cx(1, 1)''],
         title = ''Zernike Coefficients [x-axis]'', legend_shown = True,
         grid_shown = True\<rparr>\<rparr>"
  by code_simp

text \<open>
  An unset order or vector raises \<open>TypeError\<close>: one order alone at line 65
  (\<open>None + 1\<close>), an unset order beside a set one at line 62 (the comparison in
  \<open>max\<close>), an unset vector at line 73 (\<open>len(None)\<close>). Each time the axes are
  already cleared.
\<close>

lemma unset_examples:
  "plot_bar_chart (PyCanvas charted_canvas) (PyList [PyDistortion unset_d])
     (PyList [PyStr ''a.json'']) (PyStr ''y'') False
   = (PyCanvas (charted_canvas\<lparr>axes := cleared_axes\<rparr>),
      Inl (TypeError (''unsupported operand type(s) for +: '' @ quoted ''NoneType''
                        @ '' and '' @ quoted ''int'')))
   \<and> plot_bar_chart (PyCanvas charted_canvas) (PyList [PyDistortion example_d1, PyDistortion unset_d])
     (PyList [PyStr ''a.json'', PyStr ''b.json'']) (PyStr ''y'') False
   = (PyCanvas (charted_canvas\<lparr>axes := cleared_axes\<rparr>),
      Inl (TypeError (quoted ''>'' @ '' not supported between instances of '' @ quoted ''NoneType''
                        @ '' and '' @ quoted ''int'')))
   \<and> plot_bar_chart (PyCanvas charted_canvas)
       (PyList [PyDistortion \<lparr>Nzer = Some 0, parameters_x = None, parameters_y = None\<rparr>])
     (PyList [PyStr ''a.json'']) (PyStr ''y'') False
   = (PyCanvas (charted_canvas\<lparr>axes := cleared_axes\<rparr>),
      Inl (TypeError (''object of type '' @ quoted ''NoneType'' @ '' has no len()'')))"
  by code_simp

text \<open>
  A negative order gives an empty \<open>range(Nzer + 1)\<close> and no tick label, whatever
  \<open>(Nzer + 1) * (Nzer + 2) / 2\<close> is.
\<close>

lemma negative_order_example:
  "snd (plot_bar_chart (PyCanvas example_canvas)
         (PyList [PyDistortion \<lparr>Nzer = Some (- 3), parameters_x = Some [], parameters_y = Some []\<rparr>])
         (PyList [PyStr ''a.json'']) (PyStr ''x'') False)
   = Inr \<lparr>axes = \<lparr>bars =
         [\<lparr>bar_x = [], bar_height = [], bar_width = 4 / 5, bar_label = ''a.json'', bar_color = 0\<rparr>],
         xticks = [], xticklabels = [],
         title = ''Zernike Coefficients [x-axis]'', legend_shown = True, grid_shown = True\<rparr>,
      rendered = \<lparr>bars =
         [\<lparr>bar_x = [], bar_height = [], bar_width = 4 / 5, bar_label = ''a.json'', bar_color = 0\<rparr>],
         xticks = [], xticklabels = [],
         title = ''Zernike Coefficients [x-axis]'', legend_shown = True, grid_shown = True\<rparr>\<rparr>
   \<and> ((- 3 + 1) * (- 3 + 2) div 2 :: int) = 1"
  by code_simp

lemma dropEvent_example:
  "texts (file_list (dropEvent example_rt
      [LocalFile ''/data/bad.json'', RemoteUrl ''http://host/c.json'', LocalFile ''/data/b.json'',
       LocalFile ''/data/a.json''] example_UI)) = [''/data/a.json'', ''/data/b.json'']
   \<and> warnings (dropEvent example_rt
      [LocalFile ''/data/bad.json'', RemoteUrl ''http://host/c.json'', LocalFile ''/data/b.json'',
       LocalFile ''/data/a.json''] example_UI)
      = [(''File Read Error'', ''Unable to read /data/bad.json:'' @ [CHR 0x0A] @ ''not a transform file'')]
   \<and> read_calls (dropEvent example_rt
      [LocalFile ''/data/bad.json'', RemoteUrl ''http://host/c.json'', LocalFile ''/data/b.json'',
       LocalFile ''/data/a.json''] example_UI) = [''/data/bad.json'', ''/data/b.json'']
   \<and> statusbar (dropEvent example_rt
      [LocalFile ''/data/bad.json'', RemoteUrl ''http://host/c.json'', LocalFile ''/data/b.json'',
       LocalFile ''/data/a.json''] example_UI) = ''1 file(s) loaded''"
  by (simp add: dropEvent_def reset_style_def example_UI_def init_UI_def example_rt_def Let_def
      addItem_def select_all_matching_def texts_def error_message_def str_int_def str_nat.simps
      digit_char_def)

text \<open>
  The largest order and the number of tick labels of the example lists, and which of
  them the loop of \<open>plot_bar_chart\<close> gets through.
\<close>

lemma n_ticks_examples:
  "max_order [example_d1, example_d2] = 1" "n_ticks [example_d1, example_d2] = 3"
  "max_order [overlong_d] = 0" "n_ticks [overlong_d] = 1"
  "max_order [example_d2, overlong_d] = 0" "n_ticks [example_d2, overlong_d] = 1"
  "max_order [example_d1] = 1" "n_ticks [example_d1] = 3"
  by (simp_all add: n_ticks_def max_order_def example_d1_def example_d2_def overlong_d_def) code_simp+

lemma drawable_examples:
  "drawable ''x'' [example_d1, example_d2]" "drawable ''y'' [example_d1, example_d2]"
  "drawable ''y'' [example_d1]"
  "\<not> drawable ''x'' [overlong_d]" "\<not> drawable ''x'' [example_d2, overlong_d]"
  "\<not> drawable ''x'' [unset_d]"
  unfolding drawable_def n_ticks_examples
  by (simp_all add: orders_set_def vector_fits_def select_parameters_def
      example_d1_def example_d2_def overlong_d_def unset_d_def)


section \<open>The claims\<close>

text \<open>
  C1, as the code has it. Take a call of \<open>plot_bar_chart\<close> that passes the checks: a
  non-empty list of distortions, as many labels, mode \<open>"x"\<close> or \<open>"y"\<close>. The call
  returns exactly when every order is set and every vector on the chosen axis is set
  and no longer than the list of tick labels (\<open>drawable\<close>). When it returns, with
  \<open>N\<close> the maximum of \<open>d.Nzer\<close> over the distortions, the tick labels of the chart
  are the strings \<open>C{mode}({n}, {m})\<close> of a list of pairs that holds exactly the
  \<open>(n, m)\<close> with \<open>0 \<le> n \<le> N\<close>, \<open>-n \<le> m \<le> n\<close> and \<open>n + m\<close> even, in increasing
  order of \<open>n\<close> and then of \<open>m\<close>; their number is \<open>(N + 1) * (N + 2) / 2\<close> when
  \<open>N \<ge> 0\<close> and \<open>0\<close> when \<open>N\<close> is negative. When it does not return it raises, and
  the axes of the canvas carry no tick label.
\<close>

theorem ticklabels_enumerate_index_pairs:
  assumes "ds \<noteq> []" "length ls = length ds" "mode = ''x'' \<or> mode = ''y''"
  shows "if drawable mode ds
    then \<exists>cv' pairs.
        snd (plot_bar_chart (PyCanvas cv) (PyList (map PyDistortion ds)) (PyList (map PyStr ls))
               (PyStr mode) absolute) = Inr cv'
      \<and> (\<exists>d \<in> set ds. Nzer d = Some (max_order ds))
      \<and> (\<forall>d \<in> set ds. \<exists>n. Nzer d = Some n \<and> n \<le> max_order ds)
      \<and> xticklabels (axes cv')
          = map (\<lambda>(n, m). ''C'' @ mode @ ''('' @ str_int n @ '', '' @ str_int m @ '')'') pairs
      \<and> set pairs = {(n, m). 0 \<le> n \<and> n \<le> max_order ds \<and> - n \<le> m \<and> m \<le> n \<and> even (n + m)}
      \<and> sorted_wrt lex_less pairs
      \<and> int (length (xticklabels (axes cv')))
          = (if max_order ds < 0 then 0 else (max_order ds + 1) * (max_order ds + 2) div 2)
    else \<exists>e cv''.
        snd (plot_bar_chart (PyCanvas cv) (PyList (map PyDistortion ds)) (PyList (map PyStr ls))
               (PyStr mode) absolute) = Inl e
      \<and> fst (plot_bar_chart (PyCanvas cv) (PyList (map PyDistortion ds)) (PyList (map PyStr ls))
               (PyStr mode) absolute) = PyCanvas cv''
      \<and> xticklabels (axes cv'') = []"
proof -
  let ?r = "plot_bar_chart (PyCanvas cv) (PyList (map PyDistortion ds)) (PyList (map PyStr ls))
               (PyStr mode) absolute"
  let ?N = "max_order ds"
  from plot_outcome [OF assms, of cv absolute] obtain cv'' where
    f: "fst ?r = PyCanvas cv''"
    and yes: "drawable mode ds \<Longrightarrow> snd ?r = Inr cv'' \<and> length (bars (axes cv'')) = length ds
         \<and> xticks (axes cv'') = arange (n_ticks ds)
         \<and> xticklabels (axes cv'') = make_ticklabels mode ?N"
    and no: "\<not> drawable mode ds \<Longrightarrow> (\<exists>e. snd ?r = Inl e)
         \<and> length (bars (axes cv'')) < length ds \<and> xticklabels (axes cv'') = []"
    by blast
  show ?thesis
  proof (cases "drawable mode ds")
    case False
    from no [OF False] f have "\<exists>e cv''. snd ?r = Inl e \<and> fst ?r = PyCanvas cv''
        \<and> xticklabels (axes cv'') = []"
      by blast
    then show ?thesis unfolding if_not_P [OF False] .
  next
    case True
    then have os: "orders_set ds" by (simp add: drawable_def)
    have res: "snd ?r = Inr cv''" using yes [OF True] by simp
    have labels: "xticklabels (axes cv'')
        = map (\<lambda>(n, m). ''C'' @ mode @ ''('' @ str_int n @ '', '' @ str_int m @ '')'') (zernike_indices ?N)"
      using yes [OF True] by (simp add: make_ticklabels_def tick_label_def case_prod_beta)
    have set: "set (zernike_indices ?N)
        = {(n, m). 0 \<le> n \<and> n \<le> ?N \<and> - n \<le> m \<and> m \<le> n \<and> even (n + m)}"
      by (auto simp: zi_set even_iff_mod_2_eq_zero)
    have len: "int (length (xticklabels (axes cv'')))
        = (if ?N < 0 then 0 else (?N + 1) * (?N + 2) div 2)"
      unfolding labels length_map by (rule length_zernike_indices_closed)
    from res max_order_is_max [OF assms(1) os] labels set sorted_zernike_indices [of ?N] len
    have "\<exists>cv' pairs. snd ?r = Inr cv'
      \<and> (\<exists>d \<in> set ds. Nzer d = Some ?N)
      \<and> (\<forall>d \<in> set ds. \<exists>n. Nzer d = Some n \<and> n \<le> ?N)
      \<and> xticklabels (axes cv')
          = map (\<lambda>(n, m). ''C'' @ mode @ ''('' @ str_int n @ '', '' @ str_int m @ '')'') pairs
      \<and> set pairs = {(n, m). 0 \<le> n \<and> n \<le> ?N \<and> - n \<le> m \<and> m \<le> n \<and> even (n + m)}
      \<and> sorted_wrt lex_less pairs
      \<and> int (length (xticklabels (axes cv')))
          = (if ?N < 0 then 0 else (?N + 1) * (?N + 2) div 2)"
      by (intro exI [of _ cv''] exI [of _ "zernike_indices ?N"] conjI)
    then show ?thesis unfolding if_P [OF True] .
  qed
qed

theorem ticklabels_witness:
  "drawable ''x'' [example_d1, example_d2]
   \<and> max_order [example_d1, example_d2] = 1
   \<and> (\<exists>cv' pairs.
        snd (plot_bar_chart (PyCanvas example_canvas) (PyList (map PyDistortion [example_d1, example_d2]))
               (PyList (map PyStr [''a.json'', ''b.json''])) (PyStr ''x'') False) = Inr cv'
      \<and> (\<exists>d \<in> set [example_d1, example_d2]. Nzer d = Some (max_order [example_d1, example_d2]))
      \<and> (\<forall>d \<in> set [example_d1, example_d2]. \<exists>n. Nzer d = Some n \<and> n \<le> max_order [example_d1, example_d2])
      \<and> xticklabels (axes cv')
          = map (\<lambda>(n, m). ''C'' @ ''x'' @ ''('' @ str_int n @ '', '' @ str_int m @ '')'') pairs
      \<and> set pairs = {(n, m). 0 \<le> n \<and> n \<le> max_order [example_d1, example_d2] \<and> - n \<le> m \<and> m \<le> n \<and> even (n + m)}
      \<and> sorted_wrt lex_less pairs
      \<and> int (length (xticklabels (axes cv')))
          = (if max_order [example_d1, example_d2] < 0 then 0
             else (max_order [example_d1, example_d2] + 1) * (max_order [example_d1, example_d2] + 2) div 2))
   \<and> \<not> drawable ''x'' [overlong_d]
   \<and> (\<exists>e cv''.
        snd (plot_bar_chart (PyCanvas example_canvas) (PyList (map PyDistortion [overlong_d]))
               (PyList (map PyStr [''a.json''])) (PyStr ''x'') False) = Inl e
      \<and> fst (plot_bar_chart (PyCanvas example_canvas) (PyList (map PyDistortion [overlong_d]))
               (PyList (map PyStr [''a.json''])) (PyStr ''x'') False) = PyCanvas cv''
      \<and> xticklabels (axes cv'') = [])"
proof -
  have a: "[example_d1, example_d2] \<noteq> []"
      "length [''a.json'', ''b.json''] = length [example_d1, example_d2]"
      "[overlong_d] \<noteq> []" "length [''a.json''] = length [overlong_d]"
      "''x'' = ''x'' \<or> ''x'' = ''y''"
    by simp_all
  show ?thesis
    using drawable_examples(1) n_ticks_examples(1)
      ticklabels_enumerate_index_pairs [OF a(1,2,5), of example_canvas False,
        unfolded if_P [OF drawable_examples(1)]]
      drawable_examples(4)
      ticklabels_enumerate_index_pairs [OF a(3,4,5), of example_canvas False,
        unfolded if_not_P [OF drawable_examples(4)]]
    by (intro conjI)
qed

text \<open>
  C1 as it is written does not hold for every non-empty list. A distortion of order
  \<open>0\<close> with two coefficients per axis passes the checks and the maximum of the
  orders is \<open>0\<close>, but line 73 raises \<open>ValueError\<close> (\<open>numpy.zeros\<close> of a negative
  size) after line 59 cleared the axes: the chart has no tick label, where C1
  requires the one label \<open>"Cx(0, 0)"\<close>. A distortion whose order is unset passes
  the checks too, and line 65 raises \<open>TypeError\<close>.
\<close>

theorem ticklabels_counterexample:
  "Nzer overlong_d = Some 0
   \<and> plot_bar_chart (PyCanvas charted_canvas) (PyList [PyDistortion overlong_d])
        (PyList [PyStr ''a.json'']) (PyStr ''x'') False
      = (PyCanvas (charted_canvas\<lparr>axes := cleared_axes\<rparr>),
         Inl (ValueError ''negative dimensions are not allowed''))
   \<and> xticklabels (axes (charted_canvas\<lparr>axes := cleared_axes\<rparr>)) = []
   \<and> Nzer unset_d = None
   \<and> plot_bar_chart (PyCanvas charted_canvas) (PyList [PyDistortion unset_d])
        (PyList [PyStr ''a.json'']) (PyStr ''x'') False
      = (PyCanvas (charted_canvas\<lparr>axes := cleared_axes\<rparr>),
         Inl (TypeError (''unsupported operand type(s) for +: '' @ quoted ''NoneType''
                           @ '' and '' @ quoted ''int'')))"
  by code_simp




text \<open>
  C3, as the code has it. For every call of \<open>plot_bar_chart\<close> that passes the checks,
  the axes hold after the call the containers of the first distortions of the list,
  in order (of all of them exactly when the call returns), and the heights of the
  container of distortion \<open>i\<close> are the entries of \<open>parameters_x\<close> when \<open>mode\<close> is
  \<open>"x"\<close> and of \<open>parameters_y\<close> when it is \<open>"y"\<close>, padded with zeros to the number
  of tick labels (their absolute values when \<open>absolute\<close> is set). In the window,
  when some selected item has an entry in \<open>file_data\<close>, \<open>update_plot\<close> calls
  \<open>plot_bar_chart\<close> with mode \<open>"x"\<close> exactly when the text of the figure selector
  starts with \<open>"Figure 1"\<close> and with mode \<open>"y"\<close> exactly when it starts with
  \<open>"Figure 2"\<close>; when no selected item has an entry, it draws the cleared axes and
  does not call \<open>plot_bar_chart\<close>.
\<close>

theorem mode_selects_plotted_vector:
  "(ds \<noteq> [] \<and> length ls = length ds \<and> (mode = ''x'' \<or> mode = ''y'')
    \<longrightarrow> (\<exists>cv''.
          fst (plot_bar_chart (PyCanvas cv) (PyList (map PyDistortion ds)) (PyList (map PyStr ls))
                 (PyStr mode) absolute) = PyCanvas cv''
        \<and> length (bars (axes cv'')) \<le> length ds
        \<and> (\<forall>i < length (bars (axes cv'')). \<exists>ps.
              (if mode = ''x'' then parameters_x (ds ! i) else parameters_y (ds ! i)) = Some ps
            \<and> bar_height (bars (axes cv'') ! i)
                = map (\<lambda>c. if absolute then \<bar>c\<bar> else c) (ps @ replicate (n_ticks ds - length ps) 0))
        \<and> (if drawable mode ds
           then snd (plot_bar_chart (PyCanvas cv) (PyList (map PyDistortion ds)) (PyList (map PyStr ls))
                 (PyStr mode) absolute) = Inr cv''
              \<and> length (bars (axes cv'')) = length ds
              \<and> length (xticklabels (axes cv'')) = n_ticks ds
           else (\<exists>e. snd (plot_bar_chart (PyCanvas cv) (PyList (map PyDistortion ds)) (PyList (map PyStr ls))
                 (PyStr mode) absolute) = Inl e)
              \<and> length (bars (axes cv'')) < length ds)))
   \<and> ((\<exists>it \<in> set (file_list s). item_selected it \<and> item_text it \<in> dom (file_data s))
      \<longrightarrow> ((\<exists>c. update_plot_decision s = CallPlot c \<and> call_mode c = ''x'')
              \<longleftrightarrow> startswith (figure_selector s) ''Figure 1'')
        \<and> ((\<exists>c. update_plot_decision s = CallPlot c \<and> call_mode c = ''y'')
              \<longleftrightarrow> startswith (figure_selector s) ''Figure 2''))
   \<and> (\<not> (\<exists>it \<in> set (file_list s). item_selected it \<and> item_text it \<in> dom (file_data s))
      \<longrightarrow> update_plot_decision s = DrawEmpty)"
proof (intro conjI impI)
  let ?r = "plot_bar_chart (PyCanvas cv) (PyList (map PyDistortion ds)) (PyList (map PyStr ls))
                 (PyStr mode) absolute"
  assume h: "ds \<noteq> [] \<and> length ls = length ds \<and> (mode = ''x'' \<or> mode = ''y'')"
  then have a: "ds \<noteq> []" "length ls = length ds" "mode = ''x'' \<or> mode = ''y''" by simp_all
  from plot_outcome [OF a, of cv absolute] obtain cv'' where
    f: "fst ?r = PyCanvas cv''"
    and len: "length (bars (axes cv'')) \<le> length ds"
    and nth: "\<And>i. i < length (bars (axes cv'')) \<Longrightarrow>
           bars (axes cv'') ! i = bar_of mode absolute ls (n_ticks ds) (length ds) (i, ds ! i)
         \<and> vector_fits mode (n_ticks ds) (ds ! i)"
    and yes: "drawable mode ds \<Longrightarrow> snd ?r = Inr cv'' \<and> length (bars (axes cv'')) = length ds
         \<and> xticks (axes cv'') = arange (n_ticks ds)
         \<and> xticklabels (axes cv'') = make_ticklabels mode (max_order ds)"
    and no: "\<not> drawable mode ds \<Longrightarrow> (\<exists>e. snd ?r = Inl e)
         \<and> length (bars (axes cv'')) < length ds \<and> xticklabels (axes cv'') = []"
    by blast
  have hs: "\<forall>i < length (bars (axes cv'')). \<exists>ps.
              (if mode = ''x'' then parameters_x (ds ! i) else parameters_y (ds ! i)) = Some ps
            \<and> bar_height (bars (axes cv'') ! i)
                = map (\<lambda>c. if absolute then \<bar>c\<bar> else c) (ps @ replicate (n_ticks ds - length ps) 0)"
  proof (intro allI impI)
    fix i assume i: "i < length (bars (axes cv''))"
    from nth [OF i] obtain ps where ps: "select_parameters mode (ds ! i) = Some ps"
      by (auto elim: vector_fits_cases)
    have "(if mode = ''x'' then parameters_x (ds ! i) else parameters_y (ds ! i)) = Some ps"
      using ps by (simp add: select_parameters_def)
    moreover have "bar_height (bars (axes cv'') ! i)
        = map (\<lambda>c. if absolute then \<bar>c\<bar> else c) (ps @ replicate (n_ticks ds - length ps) 0)"
      using nth [OF i] by (simp add: bar_of_height [OF ps])
    ultimately show "\<exists>ps.
              (if mode = ''x'' then parameters_x (ds ! i) else parameters_y (ds ! i)) = Some ps
            \<and> bar_height (bars (axes cv'') ! i)
                = map (\<lambda>c. if absolute then \<bar>c\<bar> else c) (ps @ replicate (n_ticks ds - length ps) 0)"
      by blast
  qed
  have e: "if drawable mode ds
           then snd ?r = Inr cv'' \<and> length (bars (axes cv'')) = length ds
              \<and> length (xticklabels (axes cv'')) = n_ticks ds
           else (\<exists>e. snd ?r = Inl e) \<and> length (bars (axes cv'')) < length ds"
    using yes no by (simp add: length_make_ticklabels n_ticks_def)
  from f len hs e
  show "\<exists>cv''. fst ?r = PyCanvas cv''
        \<and> length (bars (axes cv'')) \<le> length ds
        \<and> (\<forall>i < length (bars (axes cv'')). \<exists>ps.
              (if mode = ''x'' then parameters_x (ds ! i) else parameters_y (ds ! i)) = Some ps
            \<and> bar_height (bars (axes cv'') ! i)
                = map (\<lambda>c. if absolute then \<bar>c\<bar> else c) (ps @ replicate (n_ticks ds - length ps) 0))
        \<and> (if drawable mode ds
           then snd ?r = Inr cv'' \<and> length (bars (axes cv'')) = length ds
              \<and> length (xticklabels (axes cv'')) = n_ticks ds
           else (\<exists>e. snd ?r = Inl e) \<and> length (bars (axes cv'')) < length ds)"
    by (intro exI [of _ cv''] conjI)
next
  assume a: "\<exists>it \<in> set (file_list s). item_selected it \<and> item_text it \<in> dom (file_data s)"
  show "(\<exists>c. update_plot_decision s = CallPlot c \<and> call_mode c = ''x'')
              \<longleftrightarrow> startswith (figure_selector s) ''Figure 1''"
    by (auto simp: decision_with_data [OF a])
  show "(\<exists>c. update_plot_decision s = CallPlot c \<and> call_mode c = ''y'')
              \<longleftrightarrow> startswith (figure_selector s) ''Figure 2''"
    using figure_prefixes_exclusive [of "figure_selector s"]
    by (auto simp: decision_with_data [OF a])
next
  assume "\<not> (\<exists>it \<in> set (file_list s). item_selected it \<and> item_text it \<in> dom (file_data s))"
  then show "update_plot_decision s = DrawEmpty"
    by (rule decision_no_data)
qed

theorem mode_selects_witness:
  "(\<exists>cv''.
          fst (plot_bar_chart (PyCanvas example_canvas) (PyList (map PyDistortion [example_d1, example_d2]))
                 (PyList (map PyStr [''a.json'', ''b.json''])) (PyStr ''y'') True) = PyCanvas cv''
        \<and> length (bars (axes cv'')) \<le> length [example_d1, example_d2]
        \<and> (\<forall>i < length (bars (axes cv'')). \<exists>ps.
              (if ''y'' = ''x'' then parameters_x ([example_d1, example_d2] ! i)
               else parameters_y ([example_d1, example_d2] ! i)) = Some ps
            \<and> bar_height (bars (axes cv'') ! i)
                = map (\<lambda>c. if True then \<bar>c\<bar> else c)
                    (ps @ replicate (n_ticks [example_d1, example_d2] - length ps) 0))
        \<and> snd (plot_bar_chart (PyCanvas example_canvas) (PyList (map PyDistortion [example_d1, example_d2]))
                 (PyList (map PyStr [''a.json'', ''b.json''])) (PyStr ''y'') True) = Inr cv''
        \<and> length (bars (axes cv'')) = length [example_d1, example_d2]
        \<and> length (xticklabels (axes cv'')) = n_ticks [example_d1, example_d2])
   \<and> (\<exists>it \<in> set (file_list example_UI). item_selected it \<and> item_text it \<in> dom (file_data example_UI))
   \<and> (\<exists>c. update_plot_decision example_UI = CallPlot c \<and> call_mode c = ''y'')
   \<and> \<not> (\<exists>c. update_plot_decision example_UI = CallPlot c \<and> call_mode c = ''x'')
   \<and> update_plot_decision init_UI = DrawEmpty"
proof -
  have v: "[example_d1, example_d2] \<noteq> [] \<and> length [''a.json'', ''b.json''] = length [example_d1, example_d2]
      \<and> (''y'' = ''x'' \<or> ''y'' = ''y'')"
    by simp
  have sel: "\<exists>it \<in> set (file_list example_UI). item_selected it \<and> item_text it \<in> dom (file_data example_UI)"
    by (simp add: example_UI_def init_UI_def)
  have fig: "startswith (figure_selector example_UI) ''Figure 2''"
    "\<not> startswith (figure_selector example_UI) ''Figure 1''"
    by (simp_all add: example_UI_def init_UI_def startswith_def)
  have none: "\<not> (\<exists>it \<in> set (file_list init_UI). item_selected it \<and> item_text it \<in> dom (file_data init_UI))"
    by (simp add: init_UI_def)
  note t = mode_selects_plotted_vector [of "[example_d1, example_d2]" "[''a.json'', ''b.json'']" "''y''"
        example_canvas True example_UI]
  note t' = mode_selects_plotted_vector [of "[example_d1, example_d2]" "[''a.json'', ''b.json'']" "''y''"
        example_canvas True init_UI]
  note p = t [THEN conjunct1, THEN mp, OF v, unfolded if_P [OF drawable_examples(2)]]
  have u: "(\<exists>it \<in> set (file_list example_UI). item_selected it \<and> item_text it \<in> dom (file_data example_UI))
   \<and> (\<exists>c. update_plot_decision example_UI = CallPlot c \<and> call_mode c = ''y'')
   \<and> \<not> (\<exists>c. update_plot_decision example_UI = CallPlot c \<and> call_mode c = ''x'')
   \<and> update_plot_decision init_UI = DrawEmpty"
    using sel fig none t [THEN conjunct2] t' [THEN conjunct2] by simp
  show ?thesis by (rule conjI [OF p u])
qed

text \<open>
  C3 as it is written does not hold: in the window as it starts, nothing is
  selected, the selector reads \<open>"Figure 1 : parameters (X)"\<close>, and \<open>update_plot\<close>
  returns at line 310 without a call of \<open>plot_bar_chart\<close>: the window is as before,
  its axes empty and without the title that a call with mode \<open>"x"\<close> sets.
\<close>

theorem figure_selector_counterexample:
  "startswith (figure_selector init_UI) ''Figure 1''
   \<and> update_plot_decision init_UI = DrawEmpty
   \<and> update_plot init_UI = (init_UI, None)
   \<and> title (axes (canvas init_UI)) = []"
  by (simp add: init_UI_def startswith_def update_plot_decision_def selectedItems_def
      update_plot_def axes_clear_def draw_def cleared_axes_def)

text \<open>
  C4. For every call of \<open>plot_bar_chart\<close> that passes the checks, every container
  that the call puts on the axes has one bar per tick label, and the height of bar
  \<open>j\<close> of the container of distortion \<open>i\<close> is the absolute value of coefficient
  \<open>j\<close> of the zero-padded vector when \<open>absolute\<close> is true and the coefficient
  itself when it is false; the call puts a container on the axes for every
  distortion exactly when it returns. In the window, every call that \<open>update_plot\<close>
  makes passes \<open>absolute = True\<close> exactly when the checkbox is checked.
\<close>

theorem absolute_flag_bar_heights:
  "(ds \<noteq> [] \<and> length ls = length ds \<and> (mode = ''x'' \<or> mode = ''y'')
    \<longrightarrow> (\<exists>cv''.
          fst (plot_bar_chart (PyCanvas cv) (PyList (map PyDistortion ds)) (PyList (map PyStr ls))
                 (PyStr mode) absolute) = PyCanvas cv''
        \<and> length (bars (axes cv'')) \<le> length ds
        \<and> (\<forall>i < length (bars (axes cv'')). \<exists>ps.
              select_parameters mode (ds ! i) = Some ps
            \<and> length (bar_height (bars (axes cv'') ! i)) = n_ticks ds
            \<and> (\<forall>j < n_ticks ds.
                  bar_height (bars (axes cv'') ! i) ! j
                    = (let coefficient = (if j < length ps then ps ! j else 0)
                       in if absolute then \<bar>coefficient\<bar> else coefficient)))
        \<and> (if drawable mode ds
           then snd (plot_bar_chart (PyCanvas cv) (PyList (map PyDistortion ds)) (PyList (map PyStr ls))
                 (PyStr mode) absolute) = Inr cv''
              \<and> length (bars (axes cv'')) = length ds
              \<and> length (xticklabels (axes cv'')) = n_ticks ds
           else (\<exists>e. snd (plot_bar_chart (PyCanvas cv) (PyList (map PyDistortion ds)) (PyList (map PyStr ls))
                 (PyStr mode) absolute) = Inl e)
              \<and> length (bars (axes cv'')) < length ds)))
   \<and> (\<forall>c. update_plot_decision s = CallPlot c \<longrightarrow> (call_absolute c \<longleftrightarrow> abs_checkbox s))"
proof (intro conjI impI allI)
  let ?r = "plot_bar_chart (PyCanvas cv) (PyList (map PyDistortion ds)) (PyList (map PyStr ls))
                 (PyStr mode) absolute"
  assume h: "ds \<noteq> [] \<and> length ls = length ds \<and> (mode = ''x'' \<or> mode = ''y'')"
  then have a: "ds \<noteq> []" "length ls = length ds" "mode = ''x'' \<or> mode = ''y''" by simp_all
  from plot_outcome [OF a, of cv absolute] obtain cv'' where
    f: "fst ?r = PyCanvas cv''"
    and len: "length (bars (axes cv'')) \<le> length ds"
    and nth: "\<And>i. i < length (bars (axes cv'')) \<Longrightarrow>
           bars (axes cv'') ! i = bar_of mode absolute ls (n_ticks ds) (length ds) (i, ds ! i)
         \<and> vector_fits mode (n_ticks ds) (ds ! i)"
    and yes: "drawable mode ds \<Longrightarrow> snd ?r = Inr cv'' \<and> length (bars (axes cv'')) = length ds
         \<and> xticks (axes cv'') = arange (n_ticks ds)
         \<and> xticklabels (axes cv'') = make_ticklabels mode (max_order ds)"
    and no: "\<not> drawable mode ds \<Longrightarrow> (\<exists>e. snd ?r = Inl e)
         \<and> length (bars (axes cv'')) < length ds \<and> xticklabels (axes cv'') = []"
    by blast
  have hs: "\<forall>i < length (bars (axes cv'')). \<exists>ps.
              select_parameters mode (ds ! i) = Some ps
            \<and> length (bar_height (bars (axes cv'') ! i)) = n_ticks ds
            \<and> (\<forall>j < n_ticks ds.
                  bar_height (bars (axes cv'') ! i) ! j
                    = (let coefficient = (if j < length ps then ps ! j else 0)
                       in if absolute then \<bar>coefficient\<bar> else coefficient))"
  proof (intro allI impI)
    fix i assume i: "i < length (bars (axes cv''))"
    from nth [OF i] obtain ps where ps: "select_parameters mode (ds ! i) = Some ps"
        and fit: "length ps \<le> n_ticks ds"
      by (auto elim: vector_fits_cases)
    have b: "bars (axes cv'') ! i = bar_of mode absolute ls (n_ticks ds) (length ds) (i, ds ! i)"
      using nth [OF i] by simp
    have l: "length (bar_height (bars (axes cv'') ! i)) = n_ticks ds"
      unfolding b using fit by (simp add: bar_of_def pad_to_def ps)
    have "\<forall>j < n_ticks ds.
                  bar_height (bars (axes cv'') ! i) ! j
                    = (let coefficient = (if j < length ps then ps ! j else 0)
                       in if absolute then \<bar>coefficient\<bar> else coefficient)"
      unfolding b by (intro allI impI) (rule bar_of_height_nth(1) [OF ps fit])
    with ps l show "\<exists>ps.
              select_parameters mode (ds ! i) = Some ps
            \<and> length (bar_height (bars (axes cv'') ! i)) = n_ticks ds
            \<and> (\<forall>j < n_ticks ds.
                  bar_height (bars (axes cv'') ! i) ! j
                    = (let coefficient = (if j < length ps then ps ! j else 0)
                       in if absolute then \<bar>coefficient\<bar> else coefficient))"
      by blast
  qed
  have e: "if drawable mode ds
           then snd ?r = Inr cv'' \<and> length (bars (axes cv'')) = length ds
              \<and> length (xticklabels (axes cv'')) = n_ticks ds
           else (\<exists>e. snd ?r = Inl e) \<and> length (bars (axes cv'')) < length ds"
    using yes no by (simp add: length_make_ticklabels n_ticks_def)
  from f len hs e
  show "\<exists>cv''. fst ?r = PyCanvas cv''
        \<and> length (bars (axes cv'')) \<le> length ds
        \<and> (\<forall>i < length (bars (axes cv'')). \<exists>ps.
              select_parameters mode (ds ! i) = Some ps
            \<and> length (bar_height (bars (axes cv'') ! i)) = n_ticks ds
            \<and> (\<forall>j < n_ticks ds.
                  bar_height (bars (axes cv'') ! i) ! j
                    = (let coefficient = (if j < length ps then ps ! j else 0)
                       in if absolute then \<bar>coefficient\<bar> else coefficient)))
        \<and> (if drawable mode ds
           then snd ?r = Inr cv'' \<and> length (bars (axes cv'')) = length ds
              \<and> length (xticklabels (axes cv'')) = n_ticks ds
           else (\<exists>e. snd ?r = Inl e) \<and> length (bars (axes cv'')) < length ds)"
    by (intro exI [of _ cv''] conjI)
next
  fix c assume "update_plot_decision s = CallPlot c"
  then show "call_absolute c \<longleftrightarrow> abs_checkbox s"
    by (rule decision_absolute)
qed

theorem absolute_flag_witness:
  "(\<exists>cv''.
          fst (plot_bar_chart (PyCanvas example_canvas) (PyList (map PyDistortion [example_d1, example_d2]))
                 (PyList (map PyStr [''a.json'', ''b.json''])) (PyStr ''x'') True) = PyCanvas cv''
        \<and> length (bars (axes cv'')) \<le> length [example_d1, example_d2]
        \<and> (\<forall>i < length (bars (axes cv'')). \<exists>ps.
              select_parameters ''x'' ([example_d1, example_d2] ! i) = Some ps
            \<and> length (bar_height (bars (axes cv'') ! i)) = n_ticks [example_d1, example_d2]
            \<and> (\<forall>j < n_ticks [example_d1, example_d2].
                  bar_height (bars (axes cv'') ! i) ! j
                    = (let coefficient = (if j < length ps then ps ! j else 0)
                       in if True then \<bar>coefficient\<bar> else coefficient)))
        \<and> snd (plot_bar_chart (PyCanvas example_canvas) (PyList (map PyDistortion [example_d1, example_d2]))
                 (PyList (map PyStr [''a.json'', ''b.json''])) (PyStr ''x'') True) = Inr cv''
        \<and> length (bars (axes cv'')) = length [example_d1, example_d2]
        \<and> length (xticklabels (axes cv'')) = n_ticks [example_d1, example_d2])
   \<and> (\<exists>c. update_plot_decision example_UI = CallPlot c \<and> call_absolute c \<and> abs_checkbox example_UI)"
proof -
  have v: "[example_d1, example_d2] \<noteq> [] \<and> length [''a.json'', ''b.json''] = length [example_d1, example_d2]
      \<and> (''x'' = ''x'' \<or> ''x'' = ''y'')"
    by simp
  note t = absolute_flag_bar_heights [of "[example_d1, example_d2]" "[''a.json'', ''b.json'']" "''x''"
        example_canvas True example_UI]
  note p = t [THEN conjunct1, THEN mp, OF v, unfolded if_P [OF drawable_examples(1)]]
  have c: "update_plot_decision example_UI
      = CallPlot \<lparr>call_distortions = [example_d1], call_labels = [''a.json''], call_mode = ''y'',
          call_absolute = True\<rparr>"
    by code_simp
  have u: "\<exists>c. update_plot_decision example_UI = CallPlot c \<and> call_absolute c \<and> abs_checkbox example_UI"
    using t [THEN conjunct2] c by simp
  show ?thesis by (rule conjI [OF p u])
qed

text \<open>
  C5. Loading is idempotent per path. For a path \<open>p\<close> that is a key of \<open>file_data\<close>,
  \<open>dropEvent\<close> and \<open>open_files\<close> leave its entry as it is, add no list item with its
  text, and do not hand it to \<open>read_transform\<close>; a batch of such paths leaves
  \<open>file_data\<close>, the texts of the list items and the calls of \<open>read_transform\<close>
  unchanged; and dropping or opening the same batch twice leaves the same
  \<open>file_data\<close> and the same list items as doing it once (with the same
  \<open>read_transform\<close>).
\<close>

theorem loading_is_idempotent_per_path:
  "(p \<in> dom (file_data s) \<longrightarrow>
        file_data (dropEvent rt urls s) p = file_data s p
      \<and> count_list (texts (file_list (dropEvent rt urls s))) p = count_list (texts (file_list s)) p
      \<and> p \<notin> set (drop (length (read_calls s)) (read_calls (dropEvent rt urls s)))
      \<and> file_data (fst (open_files rt sel (Some paths) s)) p = file_data s p
      \<and> count_list (texts (file_list (fst (open_files rt sel (Some paths) s)))) p
          = count_list (texts (file_list s)) p
      \<and> p \<notin> set (drop (length (read_calls s)) (read_calls (fst (open_files rt sel (Some paths) s)))))
   \<and> ((\<forall>u \<in> set urls. toLocalFile u \<in> dom (file_data s)) \<longrightarrow>
        file_data (dropEvent rt urls s) = file_data s
      \<and> texts (file_list (dropEvent rt urls s)) = texts (file_list s)
      \<and> read_calls (dropEvent rt urls s) = read_calls s)
   \<and> ((\<forall>q \<in> set paths. q \<in> dom (file_data s)) \<longrightarrow>
        file_data (fst (open_files rt sel (Some paths) s)) = file_data s
      \<and> texts (file_list (fst (open_files rt sel (Some paths) s))) = texts (file_list s)
      \<and> read_calls (fst (open_files rt sel (Some paths) s)) = read_calls s)
   \<and> file_data (dropEvent rt urls (dropEvent rt urls s)) = file_data (dropEvent rt urls s)
   \<and> texts (file_list (dropEvent rt urls (dropEvent rt urls s)))
        = texts (file_list (dropEvent rt urls s))
   \<and> file_data (fst (open_files rt sel' (Some paths) (fst (open_files rt sel (Some paths) s))))
        = file_data (fst (open_files rt sel (Some paths) s))
   \<and> texts (file_list (fst (open_files rt sel' (Some paths) (fst (open_files rt sel (Some paths) s)))))
        = texts (file_list (fst (open_files rt sel (Some paths) s)))"
proof -
  have per_path: "file_data (dropEvent rt urls s) p = file_data s p
      \<and> count_list (texts (file_list (dropEvent rt urls s))) p = count_list (texts (file_list s)) p
      \<and> p \<notin> set (drop (length (read_calls s)) (read_calls (dropEvent rt urls s)))
      \<and> file_data (fst (open_files rt sel (Some paths) s)) p = file_data s p
      \<and> count_list (texts (file_list (fst (open_files rt sel (Some paths) s)))) p
          = count_list (texts (file_list s)) p
      \<and> p \<notin> set (drop (length (read_calls s)) (read_calls (fst (open_files rt sel (Some paths) s))))"
    if p: "p \<in> dom (file_data s)"
  proof -
    from p obtain d where d: "file_data s p = Some d" by blast
    have a1: "file_data (dropEvent rt urls s) p = file_data s p"
      by (simp add: dropEvent_file_data load_result_keeps [where fd = "file_data s", OF d] d)
    have a2: "count_list (texts (file_list (dropEvent rt urls s))) p = count_list (texts (file_list s)) p"
      using p by (simp add: dropEvent_count)
    obtain new where new: "read_calls (dropEvent rt urls s) = read_calls s @ new"
        "set new \<inter> dom (file_data s) = {}"
      using dropEvent_read_calls [of rt urls s] by blast
    have a3: "p \<notin> set (drop (length (read_calls s)) (read_calls (dropEvent rt urls s)))"
      using new p by auto
    have b1: "file_data (fst (open_files rt sel (Some paths) s)) p = file_data s p"
      by (simp add: open_files_eq open_load_file_data load_result_keeps [where fd = "file_data s", OF d] d)
    have b2: "count_list (texts (file_list (fst (open_files rt sel (Some paths) s)))) p
          = count_list (texts (file_list s)) p"
      using p by (simp add: open_files_eq open_load_count)
    obtain new' where new': "read_calls (open_load rt sel paths s) = read_calls s @ new'"
        "set new' \<inter> dom (file_data s) = {}"
      using open_load_read_calls [of rt sel paths s] by blast
    have b3: "p \<notin> set (drop (length (read_calls s)) (read_calls (fst (open_files rt sel (Some paths) s))))"
      using new' p by (auto simp: open_files_eq)
    from a1 a2 a3 b1 b2 b3 show ?thesis by blast
  qed
  have drop_all: "file_data (dropEvent rt urls s) = file_data s
      \<and> texts (file_list (dropEvent rt urls s)) = texts (file_list s)
      \<and> read_calls (dropEvent rt urls s) = read_calls s"
    if h: "\<forall>u \<in> set urls. toLocalFile u \<in> dom (file_data s)"
  proof -
    have st: "\<forall>u \<in> set urls. toLocalFile u = [] \<or> toLocalFile u \<in> dom (file_data s)
        \<or> isl (rt (toLocalFile u))"
      using h by blast
    have "\<forall>u \<in> set urls. toLocalFile u = [] \<or> toLocalFile u \<in> dom (file_data (reset_style s))"
      using h by (simp add: reset_style_frame)
    then have "drop_load rt urls (reset_style s, 0) = (reset_style s, 0)"
      by (rule drop_load_skip_all)
    then have "read_calls (dropEvent rt urls s) = read_calls s"
      by (simp add: dropEvent_eq reset_style_frame)
    with dropEvent_stable [OF st] show ?thesis by blast
  qed
  have open_all: "file_data (fst (open_files rt sel (Some paths) s)) = file_data s
      \<and> texts (file_list (fst (open_files rt sel (Some paths) s))) = texts (file_list s)
      \<and> read_calls (fst (open_files rt sel (Some paths) s)) = read_calls s"
    if h: "\<forall>q \<in> set paths. q \<in> dom (file_data s)"
  proof -
    have st: "\<forall>q \<in> set paths. q \<in> dom (file_data s) \<or> isl (rt q)"
      using h by blast
    obtain new where new: "read_calls (open_load rt sel paths s) = read_calls s @ new"
      using open_load_read_calls [of rt sel paths s] by blast
    have "length (read_calls (open_load rt sel paths s)) = length (read_calls s)"
      using h
    proof (induction paths arbitrary: s)
      case Nil
      show ?case by simp
    next
      case (Cons q paths)
      let ?s = "s\<lparr>file_list := setCurrentItem_first sel q (file_list s)\<rparr>"
      have "\<forall>q \<in> set paths. q \<in> dom (file_data ?s)" using Cons.prems by simp
      from Cons.IH [OF this] show ?case using Cons.prems by simp
    qed
    with new have "read_calls (open_load rt sel paths s) = read_calls s" by simp
    with open_load_stable [OF st, of sel] show ?thesis
      by (simp add: open_files_eq)
  qed
  have drop_twice: "file_data (dropEvent rt urls (dropEvent rt urls s)) = file_data (dropEvent rt urls s)"
    "texts (file_list (dropEvent rt urls (dropEvent rt urls s))) = texts (file_list (dropEvent rt urls s))"
    using dropEvent_stable [OF dropEvent_settles [of urls rt s]] by simp_all
  have open_twice: "file_data (fst (open_files rt sel' (Some paths) (fst (open_files rt sel (Some paths) s))))
        = file_data (fst (open_files rt sel (Some paths) s))"
    "texts (file_list (fst (open_files rt sel' (Some paths) (fst (open_files rt sel (Some paths) s)))))
        = texts (file_list (fst (open_files rt sel (Some paths) s)))"
    using open_load_stable [OF open_files_settles [of paths rt sel s], of sel']
    by (simp_all add: open_files_eq)
  from per_path drop_all open_all drop_twice open_twice show ?thesis
    by blast
qed

theorem idempotent_loading_witness:
  "''/data/a.json'' \<in> dom (file_data example_UI)
   \<and> file_data (dropEvent example_rt [LocalFile ''/data/a.json''] example_UI) = file_data example_UI
   \<and> texts (file_list (dropEvent example_rt [LocalFile ''/data/a.json''] example_UI))
        = texts (file_list example_UI)
   \<and> read_calls (dropEvent example_rt [LocalFile ''/data/a.json''] example_UI) = read_calls example_UI
   \<and> file_data (fst (open_files example_rt example_sel (Some [''/data/a.json'']) example_UI))
        = file_data example_UI
   \<and> texts (file_list (fst (open_files example_rt example_sel (Some [''/data/a.json'']) example_UI)))
        = texts (file_list example_UI)
   \<and> read_calls (fst (open_files example_rt example_sel (Some [''/data/a.json'']) example_UI))
        = read_calls example_UI
   \<and> file_data (dropEvent example_rt [LocalFile ''/data/bad.json'', LocalFile ''/data/b.json'']
         (dropEvent example_rt [LocalFile ''/data/bad.json'', LocalFile ''/data/b.json''] example_UI))
        = file_data (dropEvent example_rt [LocalFile ''/data/bad.json'', LocalFile ''/data/b.json''] example_UI)
   \<and> texts (file_list (dropEvent example_rt [LocalFile ''/data/bad.json'', LocalFile ''/data/b.json'']
         (dropEvent example_rt [LocalFile ''/data/bad.json'', LocalFile ''/data/b.json''] example_UI)))
        = texts (file_list (dropEvent example_rt [LocalFile ''/data/bad.json'', LocalFile ''/data/b.json'']
            example_UI))"
proof -
  have a: "''/data/a.json'' \<in> dom (file_data example_UI)"
    by (simp add: example_UI_def init_UI_def)
  show ?thesis
    using a
      loading_is_idempotent_per_path [where p = "''/data/a.json''" and s = example_UI
        and rt = example_rt and urls = "[LocalFile ''/data/a.json'']" and sel = example_sel
        and paths = "[''/data/a.json'']" and sel' = example_sel]
      loading_is_idempotent_per_path [where p = "''/data/a.json''" and s = example_UI
        and rt = example_rt and urls = "[LocalFile ''/data/bad.json'', LocalFile ''/data/b.json'']"
        and sel = example_sel and paths = "[''/data/a.json'']" and sel' = example_sel]
    by simp
qed

text \<open>
  C6. Read errors are per file. When \<open>read_transform\<close> raises \<open>e\<close> for the path \<open>p\<close>:
  after \<open>dropEvent\<close> or \<open>open_files\<close> on any batch, the entry of \<open>p\<close> in \<open>file_data\<close>
  and the number of list items with text \<open>p\<close> are as before; if \<open>p\<close> is in the batch
  and was read (not passed over), the warning dialog for \<open>p\<close> and \<open>e\<close> is among the
  dialogs shown by the call; and every path of the batch that was not loaded before
  and that \<open>read_transform\<close> reads ends in \<open>file_data\<close> with what was read and gets one
  list item.
\<close>

theorem read_errors_are_per_file:
  assumes "rt p = Inl e"
  shows "file_data (dropEvent rt urls s) p = file_data s p
    \<and> count_list (texts (file_list (dropEvent rt urls s))) p = count_list (texts (file_list s)) p
    \<and> (p \<noteq> [] \<and> p \<in> toLocalFile ` set urls \<and> p \<notin> dom (file_data s)
        \<longrightarrow> (''File Read Error'', ''Unable to read '' @ p @ '':'' @ [CHR 0x0A] @ error_message e)
              \<in> set (drop (length (warnings s)) (warnings (dropEvent rt urls s))))
    \<and> (\<forall>q d. q \<noteq> [] \<and> q \<in> toLocalFile ` set urls \<and> q \<notin> dom (file_data s) \<and> rt q = Inr d
        \<longrightarrow> file_data (dropEvent rt urls s) q = Some d
          \<and> count_list (texts (file_list (dropEvent rt urls s))) q
              = count_list (texts (file_list s)) q + 1)
    \<and> file_data (fst (open_files rt sel (Some paths) s)) p = file_data s p
    \<and> count_list (texts (file_list (fst (open_files rt sel (Some paths) s)))) p
        = count_list (texts (file_list s)) p
    \<and> (p \<in> set paths \<and> p \<notin> dom (file_data s)
        \<longrightarrow> (''File Read Error'', ''Unable to read '' @ p @ '':'' @ [CHR 0x0A] @ error_message e)
              \<in> set (drop (length (warnings s)) (warnings (fst (open_files rt sel (Some paths) s)))))
    \<and> (\<forall>q d. q \<in> set paths \<and> q \<notin> dom (file_data s) \<and> rt q = Inr d
        \<longrightarrow> file_data (fst (open_files rt sel (Some paths) s)) q = Some d
          \<and> count_list (texts (file_list (fst (open_files rt sel (Some paths) s)))) q
              = count_list (texts (file_list s)) q + 1)"
proof -
  have isl: "isl (rt p)" and pr: "projl (rt p) = e" using assms by simp_all
  have w: "(''File Read Error'', ''Unable to read '' @ p @ '':'' @ [CHR 0x0A] @ error_message e)
      = read_warning p (projl (rt p))"
    by (simp add: read_warning_def pr)
  have d1: "file_data (dropEvent rt urls s) p = file_data s p"
    by (simp add: dropEvent_file_data load_result_fail [where rt = rt and p = p, OF isl])
  have d2: "count_list (texts (file_list (dropEvent rt urls s))) p = count_list (texts (file_list s)) p"
    using isl by (simp add: dropEvent_count)
  have d3: "(''File Read Error'', ''Unable to read '' @ p @ '':'' @ [CHR 0x0A] @ error_message e)
              \<in> set (drop (length (warnings s)) (warnings (dropEvent rt urls s)))"
    if "p \<noteq> [] \<and> p \<in> toLocalFile ` set urls \<and> p \<notin> dom (file_data s)"
    unfolding w dropEvent_warnings using that isl by auto
  have d4: "file_data (dropEvent rt urls s) q = Some d
          \<and> count_list (texts (file_list (dropEvent rt urls s))) q
              = count_list (texts (file_list s)) q + 1"
    if "q \<noteq> [] \<and> q \<in> toLocalFile ` set urls \<and> q \<notin> dom (file_data s) \<and> rt q = Inr d" for q d
  proof -
    have "file_data s q = None" using that by blast
    then have "file_data (dropEvent rt urls s) q = Some d"
      using that by (simp add: dropEvent_file_data load_result_def)
    moreover have "count_list (texts (file_list (dropEvent rt urls s))) q
              = count_list (texts (file_list s)) q + 1"
      using that by (simp add: dropEvent_count)
    ultimately show ?thesis by blast
  qed
  have o1: "file_data (fst (open_files rt sel (Some paths) s)) p = file_data s p"
    by (simp add: open_files_eq open_load_file_data load_result_fail [where rt = rt and p = p, OF isl])
  have o2: "count_list (texts (file_list (fst (open_files rt sel (Some paths) s)))) p
        = count_list (texts (file_list s)) p"
    using isl by (simp add: open_files_eq open_load_count)
  have o3: "(''File Read Error'', ''Unable to read '' @ p @ '':'' @ [CHR 0x0A] @ error_message e)
              \<in> set (drop (length (warnings s)) (warnings (fst (open_files rt sel (Some paths) s))))"
    if "p \<in> set paths \<and> p \<notin> dom (file_data s)"
    unfolding w open_files_eq open_load_warnings using that isl by auto
  have o4: "file_data (fst (open_files rt sel (Some paths) s)) q = Some d
          \<and> count_list (texts (file_list (fst (open_files rt sel (Some paths) s)))) q
              = count_list (texts (file_list s)) q + 1"
    if "q \<in> set paths \<and> q \<notin> dom (file_data s) \<and> rt q = Inr d" for q d
  proof -
    have "file_data s q = None" using that by blast
    then have "file_data (fst (open_files rt sel (Some paths) s)) q = Some d"
      using that by (simp add: open_files_eq open_load_file_data load_result_def)
    moreover have "count_list (texts (file_list (fst (open_files rt sel (Some paths) s)))) q
              = count_list (texts (file_list s)) q + 1"
      using that by (simp add: open_files_eq open_load_count)
    ultimately show ?thesis by blast
  qed
  from d1 d2 d3 d4 o1 o2 o3 o4 show ?thesis by blast
qed

theorem read_errors_witness:
  "example_rt ''/data/bad.json'' = Inl (Exception ''not a transform file'')
   \<and> file_data (dropEvent example_rt [LocalFile ''/data/bad.json'', LocalFile ''/data/b.json''] example_UI)
        ''/data/bad.json'' = None
   \<and> count_list (texts (file_list
        (dropEvent example_rt [LocalFile ''/data/bad.json'', LocalFile ''/data/b.json''] example_UI)))
        ''/data/bad.json'' = 0
   \<and> (''File Read Error'', ''Unable to read /data/bad.json:'' @ [CHR 0x0A] @ ''not a transform file'')
        \<in> set (warnings
             (dropEvent example_rt [LocalFile ''/data/bad.json'', LocalFile ''/data/b.json''] example_UI))
   \<and> file_data (dropEvent example_rt [LocalFile ''/data/bad.json'', LocalFile ''/data/b.json''] example_UI)
        ''/data/b.json'' = Some example_d2
   \<and> count_list (texts (file_list
        (dropEvent example_rt [LocalFile ''/data/bad.json'', LocalFile ''/data/b.json''] example_UI)))
        ''/data/b.json'' = 1
   \<and> file_data (fst (open_files example_rt example_sel (Some [''/data/bad.json'', ''/data/b.json''])
        example_UI)) ''/data/bad.json'' = None
   \<and> file_data (fst (open_files example_rt example_sel (Some [''/data/bad.json'', ''/data/b.json''])
        example_UI)) ''/data/b.json'' = Some example_d2"
proof -
  have bad: "example_rt ''/data/bad.json'' = Inl (Exception ''not a transform file'')"
    by (simp add: example_rt_def)
  have b: "example_rt ''/data/b.json'' = Inr example_d2"
    by (simp add: example_rt_def)
  have s: "file_data example_UI ''/data/bad.json'' = None" "file_data example_UI ''/data/b.json'' = None"
    "count_list (texts (file_list example_UI)) ''/data/bad.json'' = 0"
    "count_list (texts (file_list example_UI)) ''/data/b.json'' = 0"
    "warnings example_UI = []"
    by (simp_all add: example_UI_def init_UI_def texts_def)
  note t = read_errors_are_per_file [where rt = example_rt and p = "''/data/bad.json''"
        and e = "Exception ''not a transform file''"
        and urls = "[LocalFile ''/data/bad.json'', LocalFile ''/data/b.json'']"
        and s = example_UI and sel = example_sel and paths = "[''/data/bad.json'', ''/data/b.json'']", OF bad]
  show ?thesis
    using bad b s t by (auto simp: error_message_def domIff)
qed

text \<open>
  C7, as the code has it. For every call of \<open>plot_bar_chart\<close> that passes the checks,
  with \<open>k\<close> distortions: every container that the call puts on the axes has bars of
  width \<open>0.8 / k\<close>, the bar of the container of distortion \<open>i\<close> at tick \<open>j\<close> is
  centred at \<open>j - 0.4 + (2 * i + 1) * 0.4 / k\<close>, and the bars of one tick group do
  not overlap. When the call returns (\<open>drawable\<close>), there are \<open>k\<close> containers, tick
  \<open>j\<close> is at position \<open>j\<close>, and the \<open>k\<close> bars of a tick group cover exactly the
  interval from \<open>0.4\<close> below the tick to \<open>0.4\<close> above it; when it raises, there are
  fewer than \<open>k\<close> containers. Over the rationals.
\<close>

theorem bars_tile_tick_interval:
  assumes "ds \<noteq> []" "length ls = length ds" "mode = ''x'' \<or> mode = ''y''"
  shows "\<exists>cv''.
      fst (plot_bar_chart (PyCanvas cv) (PyList (map PyDistortion ds)) (PyList (map PyStr ls))
             (PyStr mode) absolute) = PyCanvas cv''
    \<and> length (bars (axes cv'')) \<le> length ds
    \<and> (\<forall>i < length (bars (axes cv'')).
          bar_width (bars (axes cv'') ! i) = (8 / 10) / of_nat (length ds)
        \<and> length (bar_x (bars (axes cv'') ! i)) = n_ticks ds
        \<and> (\<forall>j < n_ticks ds.
              bar_x (bars (axes cv'') ! i) ! j
                = of_nat j - 4 / 10 + (2 * of_nat i + 1) * (4 / 10) / of_nat (length ds)))
    \<and> (\<forall>j < n_ticks ds. \<forall>i i'. i < i' \<and> i' < length (bars (axes cv''))
          \<longrightarrow> bar_right (bars (axes cv'') ! i) j \<le> bar_left (bars (axes cv'') ! i') j)
    \<and> (if drawable mode ds
       then snd (plot_bar_chart (PyCanvas cv) (PyList (map PyDistortion ds)) (PyList (map PyStr ls))
                  (PyStr mode) absolute) = Inr cv''
          \<and> length (bars (axes cv'')) = length ds
          \<and> length (xticks (axes cv'')) = n_ticks ds
          \<and> (\<forall>j < n_ticks ds.
                xticks (axes cv'') ! j = of_nat j
              \<and> (\<Union>i<length ds. {bar_left (bars (axes cv'') ! i) j .. bar_right (bars (axes cv'') ! i) j})
                  = {xticks (axes cv'') ! j - 4 / 10 .. xticks (axes cv'') ! j + 4 / 10})
       else (\<exists>e. snd (plot_bar_chart (PyCanvas cv) (PyList (map PyDistortion ds)) (PyList (map PyStr ls))
                  (PyStr mode) absolute) = Inl e)
          \<and> length (bars (axes cv'')) < length ds)"
proof -
  let ?r = "plot_bar_chart (PyCanvas cv) (PyList (map PyDistortion ds)) (PyList (map PyStr ls))
                 (PyStr mode) absolute"
  let ?k = "length ds"
  let ?n = "n_ticks ds"
  let ?w = "(8 / 10) / (of_nat ?k :: rat)"
  have k: "0 < ?k" using assms(1) by simp
  have w: "0 \<le> ?w" by simp
  from plot_outcome [OF assms, of cv absolute] obtain cv'' where
    f: "fst ?r = PyCanvas cv''"
    and len: "length (bars (axes cv'')) \<le> ?k"
    and nth: "\<And>i. i < length (bars (axes cv'')) \<Longrightarrow>
           bars (axes cv'') ! i = bar_of mode absolute ls ?n ?k (i, ds ! i)
         \<and> vector_fits mode ?n (ds ! i)"
    and yes: "drawable mode ds \<Longrightarrow> snd ?r = Inr cv'' \<and> length (bars (axes cv'')) = ?k
         \<and> xticks (axes cv'') = arange ?n
         \<and> xticklabels (axes cv'') = make_ticklabels mode (max_order ds)"
    and no: "\<not> drawable mode ds \<Longrightarrow> (\<exists>e. snd ?r = Inl e)
         \<and> length (bars (axes cv'')) < ?k \<and> xticklabels (axes cv'') = []"
    by blast
  let ?b = "\<lambda>i. bars (axes cv'') ! i"
  have b: "\<And>i. i < length (bars (axes cv'')) \<Longrightarrow> ?b i = bar_of mode absolute ls ?n ?k (i, ds ! i)"
    using nth by simp
  have left: "\<And>i j. i < length (bars (axes cv'')) \<Longrightarrow> j < ?n \<Longrightarrow>
      bar_left (?b i) j = (of_nat j - 4 / 10) + of_nat i * ?w"
    by (simp only: b bar_geometry(4) [OF k])
  have right: "\<And>i j. i < length (bars (axes cv'')) \<Longrightarrow> j < ?n \<Longrightarrow>
      bar_right (?b i) j = (of_nat j - 4 / 10) + (of_nat i + 1) * ?w"
    by (simp only: b bar_geometry(5) [OF k])
  have shape: "\<forall>i < length (bars (axes cv'')).
          bar_width (?b i) = ?w
        \<and> length (bar_x (?b i)) = ?n
        \<and> (\<forall>j < ?n. bar_x (?b i) ! j = of_nat j - 4 / 10 + (2 * of_nat i + 1) * (4 / 10) / of_nat ?k)"
  proof (intro allI impI conjI)
    fix i assume i: "i < length (bars (axes cv''))"
    show "bar_width (?b i) = ?w" unfolding b [OF i] by (simp add: bar_of_def)
    show "length (bar_x (?b i)) = ?n" unfolding b [OF i] by (simp add: bar_of_def length_arange)
    fix j assume j: "j < ?n"
    show "bar_x (?b i) ! j = of_nat j - 4 / 10 + (2 * of_nat i + 1) * (4 / 10) / of_nat ?k"
      unfolding b [OF i] by (rule bar_geometry(3) [OF k j])
  qed
  have apart: "\<forall>j < ?n. \<forall>i i'. i < i' \<and> i' < length (bars (axes cv''))
          \<longrightarrow> bar_right (?b i) j \<le> bar_left (?b i') j"
  proof (intro allI impI)
    fix j i i' assume j: "j < ?n" and h: "i < i' \<and> i' < length (bars (axes cv''))"
    then have i: "i < length (bars (axes cv''))" and i': "i' < length (bars (axes cv''))"
      by simp_all
    have "(of_nat i + 1 :: rat) \<le> of_nat i'"
      using h by (metis Suc_leI of_nat_Suc of_nat_le_iff add.commute)
    then have "(of_nat i + 1) * ?w \<le> of_nat i' * ?w"
      using w by (rule mult_right_mono)
    then show "bar_right (?b i) j \<le> bar_left (?b i') j"
      unfolding left [OF i' j] right [OF i j] by simp
  qed
  have e: "if drawable mode ds
       then snd ?r = Inr cv'' \<and> length (bars (axes cv'')) = ?k
          \<and> length (xticks (axes cv'')) = ?n
          \<and> (\<forall>j < ?n. xticks (axes cv'') ! j = of_nat j
              \<and> (\<Union>i<?k. {bar_left (?b i) j .. bar_right (?b i) j})
                  = {xticks (axes cv'') ! j - 4 / 10 .. xticks (axes cv'') ! j + 4 / 10})
       else (\<exists>e. snd ?r = Inl e) \<and> length (bars (axes cv'')) < ?k"
  proof (cases "drawable mode ds")
    case False
    show ?thesis unfolding if_not_P [OF False] using no [OF False] by simp
  next
    case True
    have res: "snd ?r = Inr cv''" and all: "length (bars (axes cv'')) = ?k"
      and xt: "xticks (axes cv'') = arange ?n"
      using yes [OF True] by simp_all
    have tile: "\<forall>j < ?n. xticks (axes cv'') ! j = of_nat j
              \<and> (\<Union>i<?k. {bar_left (?b i) j .. bar_right (?b i) j})
                  = {xticks (axes cv'') ! j - 4 / 10 .. xticks (axes cv'') ! j + 4 / 10}"
    proof (intro allI impI)
      fix j assume j: "j < ?n"
      have xj: "xticks (axes cv'') ! j = of_nat j" by (simp add: xt arange_nth j)
      have "(\<Union>i<?k. {bar_left (?b i) j .. bar_right (?b i) j})
          = (\<Union>i<?k. {(of_nat j - 4 / 10) + of_nat i * ?w .. (of_nat j - 4 / 10) + (of_nat i + 1) * ?w})"
        using left [OF _ j] right [OF _ j] all by simp
      also have "\<dots> = {of_nat j - 4 / 10 .. (of_nat j - 4 / 10) + of_nat ?k * ?w}"
        by (rule union_adjacent_intervals [OF w k])
      also have "(of_nat j - 4 / 10) + of_nat ?k * ?w = (of_nat j + 4 / 10 :: rat)"
        using k by simp
      finally have "(\<Union>i<?k. {bar_left (?b i) j .. bar_right (?b i) j})
            = {xticks (axes cv'') ! j - 4 / 10 .. xticks (axes cv'') ! j + 4 / 10}"
        by (simp add: xj)
      with xj show "xticks (axes cv'') ! j = of_nat j
              \<and> (\<Union>i<?k. {bar_left (?b i) j .. bar_right (?b i) j})
                  = {xticks (axes cv'') ! j - 4 / 10 .. xticks (axes cv'') ! j + 4 / 10}"
        by (rule conjI)
    qed
    have lx: "length (xticks (axes cv'')) = ?n" by (simp add: xt length_arange)
    from res all lx tile show ?thesis unfolding if_P [OF True] by (intro conjI)
  qed
  from f len shape apart e show ?thesis
    by (intro exI [of _ cv''] conjI)
qed

theorem bars_tile_witness:
  "drawable ''x'' [example_d1, example_d2]
   \<and> (\<exists>cv''.
      fst (plot_bar_chart (PyCanvas example_canvas) (PyList (map PyDistortion [example_d1, example_d2]))
             (PyList (map PyStr [''a.json'', ''b.json''])) (PyStr ''x'') False) = PyCanvas cv''
    \<and> length (bars (axes cv'')) \<le> length [example_d1, example_d2]
    \<and> (\<forall>i < length (bars (axes cv'')).
          bar_width (bars (axes cv'') ! i) = (8 / 10) / of_nat (length [example_d1, example_d2])
        \<and> length (bar_x (bars (axes cv'') ! i)) = n_ticks [example_d1, example_d2]
        \<and> (\<forall>j < n_ticks [example_d1, example_d2].
              bar_x (bars (axes cv'') ! i) ! j
                = of_nat j - 4 / 10 + (2 * of_nat i + 1) * (4 / 10) / of_nat (length [example_d1, example_d2])))
    \<and> (\<forall>j < n_ticks [example_d1, example_d2]. \<forall>i i'. i < i' \<and> i' < length (bars (axes cv''))
          \<longrightarrow> bar_right (bars (axes cv'') ! i) j \<le> bar_left (bars (axes cv'') ! i') j)
    \<and> snd (plot_bar_chart (PyCanvas example_canvas) (PyList (map PyDistortion [example_d1, example_d2]))
             (PyList (map PyStr [''a.json'', ''b.json''])) (PyStr ''x'') False) = Inr cv''
    \<and> length (bars (axes cv'')) = length [example_d1, example_d2]
    \<and> length (xticks (axes cv'')) = n_ticks [example_d1, example_d2]
    \<and> (\<forall>j < n_ticks [example_d1, example_d2].
          xticks (axes cv'') ! j = of_nat j
        \<and> (\<Union>i<length [example_d1, example_d2].
              {bar_left (bars (axes cv'') ! i) j .. bar_right (bars (axes cv'') ! i) j})
            = {xticks (axes cv'') ! j - 4 / 10 .. xticks (axes cv'') ! j + 4 / 10}))
   \<and> n_ticks [example_d1, example_d2] = 3"
proof -
  have a: "[example_d1, example_d2] \<noteq> []"
      "length [''a.json'', ''b.json''] = length [example_d1, example_d2]"
      "''x'' = ''x'' \<or> ''x'' = ''y''"
    by simp_all
  note p = bars_tile_tick_interval [OF a, of example_canvas False,
      unfolded if_P [OF drawable_examples(1)]]
  from drawable_examples(1) p n_ticks_examples(2) show ?thesis by (intro conjI)
qed

text \<open>
  C7 as it is written does not hold for every valid call. With two distortions, of
  which the second has two coefficients per axis for the one tick label, line 73
  raises for the second when the bars of the first are drawn: the tick group at
  \<open>0\<close> has one bar, from \<open>-0.4\<close> to \<open>0\<close>, and not two bars up to \<open>0.4\<close>. With a
  distortion whose order is unset the call raises before it draws any bar.
\<close>

theorem bars_tile_counterexample:
  "plot_bar_chart (PyCanvas example_canvas) (PyList [PyDistortion example_d2, PyDistortion overlong_d])
        (PyList [PyStr ''a.json'', PyStr ''b.json'']) (PyStr ''x'') False
      = (PyCanvas (example_canvas\<lparr>axes := cleared_axes\<lparr>bars :=
            [\<lparr>bar_x = [- (1 / 5)], bar_height = [- 4], bar_width = 2 / 5,
              bar_label = ''a.json'', bar_color = 0\<rparr>]\<rparr>\<rparr>),
         Inl (ValueError ''negative dimensions are not allowed''))
   \<and> bar_left \<lparr>bar_x = [- (1 / 5)], bar_height = [- 4], bar_width = 2 / 5,
              bar_label = ''a.json'', bar_color = 0\<rparr> 0 = - (2 / 5)
   \<and> bar_right \<lparr>bar_x = [- (1 / 5)], bar_height = [- 4], bar_width = 2 / 5,
              bar_label = ''a.json'', bar_color = 0\<rparr> 0 = 0
   \<and> plot_bar_chart (PyCanvas example_canvas) (PyList [PyDistortion unset_d])
        (PyList [PyStr ''a.json'']) (PyStr ''x'') False
      = (PyCanvas (example_canvas\<lparr>axes := cleared_axes\<rparr>),
         Inl (TypeError (''unsupported operand type(s) for +: '' @ quoted ''NoneType''
                           @ '' and '' @ quoted ''int'')))
   \<and> bars (axes (example_canvas\<lparr>axes := cleared_axes\<rparr>)) = []"
  by code_simp

text \<open>
  C8. The keys of \<open>file_data\<close> are the texts of the list items and no text occurs
  twice (\<open>files_invariant\<close>): this holds in the window as \<open>__init__\<close> builds it, and
  \<open>dropEvent\<close>, \<open>open_files\<close> and \<open>remove_selected_files\<close> each keep it.
\<close>

theorem file_operations_keep_invariant:
  "files_invariant init_UI
   \<and> (files_invariant s \<longrightarrow> files_invariant (dropEvent rt urls s))
   \<and> (files_invariant s \<longrightarrow> files_invariant (fst (open_files rt sel dialog s)))
   \<and> (files_invariant s \<longrightarrow> files_invariant (fst (remove_selected_files s)))"
  using init_invariant dropEvent_invariant [of s rt urls] open_files_invariant [of s rt sel dialog]
    remove_selected_invariant [of s]
  by blast

theorem invariant_witness:
  "files_invariant example_UI
   \<and> files_invariant (dropEvent example_rt [LocalFile ''/data/bad.json'', LocalFile ''/data/b.json''] example_UI)
   \<and> files_invariant (fst (open_files example_rt example_sel (Some [''/data/b.json'', ''/data/a.json'']) example_UI))
   \<and> files_invariant (fst (remove_selected_files example_UI))"
proof -
  have "files_invariant example_UI"
    by (simp add: files_invariant_def example_UI_def init_UI_def texts_def)
  then show ?thesis
    using file_operations_keep_invariant [of example_UI example_rt
        "[LocalFile ''/data/bad.json'', LocalFile ''/data/b.json'']" example_sel
        "Some [''/data/b.json'', ''/data/a.json'']"]
    by simp
qed

end
